theory Spec2Isabelle
  imports Complex_Main "HOL-Library.Char_ord" "HOL-Library.List_Lexorder" "HOL-Library.Sublist"
begin

section \<open>Strings\<close>

text \<open>
  The planner keeps every date as a string key and compares keys with the string
  operators \<^verbatim>\<open><=\<close> and \<^verbatim>\<open>>=\<close>, i.e. lexicographically by code unit. Strings are
  modelled as \<^typ>\<open>string\<close> with the lexicographic order of \<open>HOL-Library.List_Lexorder\<close>
  over the character order of \<open>HOL-Library.Char_ord\<close>; a character stands for a code
  unit below 256.
\<close>

text \<open>Truthiness of a value of type \<^verbatim>\<open>string | null\<close>: \<^verbatim>\<open>null\<close> and the empty string are falsy.\<close>

fun truthy :: "string option \<Rightarrow> bool" where
  "truthy None = False"
| "truthy (Some s) = (s \<noteq> [])"

text \<open>\<^verbatim>\<open>a || b\<close> for \<^verbatim>\<open>a : string | null\<close> and \<^verbatim>\<open>b : string\<close>.\<close>

fun orElse :: "string option \<Rightarrow> string \<Rightarrow> string" where
  "orElse None b = b"
| "orElse (Some a) b = (if a = [] then b else a)"

text \<open>White space stripped by \<^verbatim>\<open>String.prototype.trim\<close>, among the code units below 256:
  TAB, LF, VT, FF, CR, SPACE and NBSP.\<close>

definition isWhiteSpace :: "char \<Rightarrow> bool" where
  "isWhiteSpace c = ((of_char c :: nat) \<in> {9, 10, 11, 12, 13, 32, 160})"

definition trim :: "string \<Rightarrow> string" where
  "trim s = rev (dropWhile isWhiteSpace (rev (dropWhile isWhiteSpace s)))"

text \<open>\<^verbatim>\<open>toLowerCase\<close> on code units below 256: A-Z and the accented capitals
  0xC0-0xDE (without the multiplication sign 0xD7) move up by 32.\<close>

definition lowerChar :: "char \<Rightarrow> char" where
  "lowerChar c =
     (let n = (of_char c :: nat) in
      if (65 \<le> n \<and> n \<le> 90) \<or> (192 \<le> n \<and> n \<le> 222 \<and> n \<noteq> 215)
      then char_of (n + 32) else c)"

definition toLowerCase :: "string \<Rightarrow> string" where
  "toLowerCase s = map lowerChar s"

text \<open>\<^verbatim>\<open>s.includes(t)\<close>: \<open>t\<close> occurs in \<open>s\<close> as a contiguous substring.\<close>

fun includesStr :: "string \<Rightarrow> string \<Rightarrow> bool" where
  "includesStr [] t = (t = [])"
| "includesStr (c # s) t = (prefix t (c # s) \<or> includesStr s t)"

text \<open>Decimal digits, as \<^verbatim>\<open>Number.prototype.toString\<close> and the zero padding of
  \<^verbatim>\<open>toISOString\<close> print them.\<close>

definition digitChar :: "nat \<Rightarrow> char" where
  "digitChar d = ''0123456789'' ! d"

fun digits :: "nat \<Rightarrow> string" where
  "digits n = (if n < 10 then [digitChar n] else digits (n div 10) @ [digitChar (n mod 10)])"

declare digits.simps [simp del]

definition numToString :: "int \<Rightarrow> string" where
  "numToString i = (if i < 0 then CHR ''-'' # digits (nat (- i)) else digits (nat i))"

definition pad :: "nat \<Rightarrow> nat \<Rightarrow> string" where
  "pad k n = replicate (k - length (digits n)) CHR ''0'' @ digits n"

definition isDigit :: "char \<Rightarrow> bool" where
  "isDigit c = (48 \<le> (of_char c :: nat) \<and> (of_char c :: nat) \<le> 57)"

definition digitsVal :: "string \<Rightarrow> nat" where
  "digitsVal s = foldl (\<lambda>acc c. 10 * acc + ((of_char c :: nat) - 48)) 0 s"

text \<open>Reads exactly \<open>k\<close> decimal digits from the front of a string.\<close>

definition readDigits :: "nat \<Rightarrow> string \<Rightarrow> (nat \<times> string) option" where
  "readDigits k s =
     (if k \<le> length s \<and> list_all isDigit (take k s)
      then Some (digitsVal (take k s), drop k s) else None)"

section \<open>Time values and the calendar\<close>

text \<open>
  A valid \<^verbatim>\<open>Date\<close> is its time value: an integer count of milliseconds since
  1970-01-01T00:00Z. The functions below are those of ECMA-262 (Day, DayFromYear,
  YearFromTime, MonthFromTime, DateFromTime, WeekDay, MakeDay, MakeDate, LocalTime, UTC).
  Time values are unbounded here (the clipping to 8.64e15 ms is left out).
  An invalid \<^verbatim>\<open>Date\<close> (time value NaN) is \<open>None\<close> where it can arise.
\<close>

definition msPerDay :: int where
  "msPerDay = 86400000"

definition Day :: "int \<Rightarrow> int" where
  "Day t = t div msPerDay"

definition TimeWithinDay :: "int \<Rightarrow> int" where
  "TimeWithinDay t = t mod msPerDay"

definition DaysInYear :: "int \<Rightarrow> int" where
  "DaysInYear y =
     (if y mod 4 \<noteq> 0 then 365 else if y mod 100 \<noteq> 0 then 366
      else if y mod 400 \<noteq> 0 then 365 else 366)"

definition DayFromYear :: "int \<Rightarrow> int" where
  "DayFromYear y =
     365 * (y - 1970) + (y - 1969) div 4 - (y - 1901) div 100 + (y - 1601) div 400"

text \<open>The largest year whose first day is not after day \<open>d\<close>, computed from the mean
  year length of 146097/400 days and corrected by at most one year either way.\<close>

definition YearFromDay :: "int \<Rightarrow> int" where
  "YearFromDay d =
     (let y0 = 1970 + (400 * d) div 146097 in
      if DayFromYear (y0 + 1) \<le> d then y0 + 1
      else if DayFromYear y0 \<le> d then y0
      else y0 - 1)"

definition YearFromTime :: "int \<Rightarrow> int" where
  "YearFromTime t = YearFromDay (Day t)"

definition leapDays :: "int \<Rightarrow> int" where
  "leapDays y = DaysInYear y - 365"

definition InLeapYear :: "int \<Rightarrow> int" where
  "InLeapYear t = leapDays (YearFromTime t)"

definition DayWithinYear :: "int \<Rightarrow> int" where
  "DayWithinYear t = Day t - DayFromYear (YearFromTime t)"

text \<open>The day within the year on which month \<open>m\<close> (0 to 11) begins; index 12 is the
  length of the year.\<close>

definition monthStart :: "int \<Rightarrow> int \<Rightarrow> int" where
  "monthStart l m =
     (if m = 0 then 0 else if m = 1 then 31 else if m = 2 then 59 + l
      else if m = 3 then 90 + l else if m = 4 then 120 + l else if m = 5 then 151 + l
      else if m = 6 then 181 + l else if m = 7 then 212 + l else if m = 8 then 243 + l
      else if m = 9 then 273 + l else if m = 10 then 304 + l else if m = 11 then 334 + l
      else 365 + l)"

definition monthOfDay :: "int \<Rightarrow> int \<Rightarrow> int" where
  "monthOfDay l d =
     (if d < 31 then 0 else if d < 59 + l then 1 else if d < 90 + l then 2
      else if d < 120 + l then 3 else if d < 151 + l then 4 else if d < 181 + l then 5
      else if d < 212 + l then 6 else if d < 243 + l then 7 else if d < 273 + l then 8
      else if d < 304 + l then 9 else if d < 334 + l then 10 else 11)"

definition MonthFromTime :: "int \<Rightarrow> int" where
  "MonthFromTime t = monthOfDay (InLeapYear t) (DayWithinYear t)"

definition DateFromTime :: "int \<Rightarrow> int" where
  "DateFromTime t = DayWithinYear t - monthStart (InLeapYear t) (MonthFromTime t) + 1"

definition WeekDay :: "int \<Rightarrow> int" where
  "WeekDay t = (Day t + 4) mod 7"

definition MakeDay :: "int \<Rightarrow> int \<Rightarrow> int \<Rightarrow> int" where
  "MakeDay year month date =
     (let ym = year + month div 12; mn = month mod 12
      in DayFromYear ym + monthStart (leapDays ym) mn + date - 1)"

definition MakeDate :: "int \<Rightarrow> int \<Rightarrow> int" where
  "MakeDate day time = day * msPerDay + time"

text \<open>The time zone of the environment gives the offset of local time from UTC, in
  milliseconds, and the offset changes with time where daylight saving is kept. A zone is
  its two readings of ECMA-262: \<open>utcOffset\<close> is the offset in force at an instant given as
  a UTC time value, \<open>localOffset\<close> the offset by which a local time value is read back (for
  a local time that a change of offset skips or repeats, the offset before the change).\<close>

record TimeZone =
  utcOffset :: "int \<Rightarrow> int"
  localOffset :: "int \<Rightarrow> int"

definition LocalTime :: "TimeZone \<Rightarrow> int \<Rightarrow> int" where
  "LocalTime tz t = t + utcOffset tz t"

definition UTC :: "TimeZone \<Rightarrow> int \<Rightarrow> int" where
  "UTC tz t = t - localOffset tz t"

text \<open>A zone whose offset never changes (UTC itself is \<open>fixedOffset 0\<close>), and the zone
  Europe/London with its changes of 2024: one hour ahead of UTC from 2024-03-31T01:00Z
  until 2024-10-27T01:00Z.\<close>

definition fixedOffset :: "int \<Rightarrow> TimeZone" where
  "fixedOffset c = \<lparr>utcOffset = (\<lambda>t. c), localOffset = (\<lambda>t. c)\<rparr>"

definition europeLondon :: TimeZone where
  "europeLondon =
     \<lparr>utcOffset = (\<lambda>t. if 1711846800000 \<le> t \<and> t < 1729990800000 then 3600000 else 0),
      localOffset = (\<lambda>t. if 1711850400000 \<le> t \<and> t < 1729994400000 then 3600000 else 0)\<rparr>"

text \<open>The accessors of \<^verbatim>\<open>Date\<close> the planner calls; all but \<^verbatim>\<open>toISOString\<close> read local time.\<close>

definition getFullYear :: "TimeZone \<Rightarrow> int \<Rightarrow> int" where
  "getFullYear tz t = YearFromTime (LocalTime tz t)"

definition getMonth :: "TimeZone \<Rightarrow> int \<Rightarrow> int" where
  "getMonth tz t = MonthFromTime (LocalTime tz t)"

definition getDate :: "TimeZone \<Rightarrow> int \<Rightarrow> int" where
  "getDate tz t = DateFromTime (LocalTime tz t)"

definition getDay :: "TimeZone \<Rightarrow> int \<Rightarrow> int" where
  "getDay tz t = WeekDay (LocalTime tz t)"

definition setDate :: "TimeZone \<Rightarrow> int \<Rightarrow> int \<Rightarrow> int" where
  "setDate tz t dt =
     (let lt = LocalTime tz t
      in UTC tz (MakeDate (MakeDay (YearFromTime lt) (MonthFromTime lt) dt) (TimeWithinDay lt)))"

text \<open>\<^verbatim>\<open>new Date(year, month, date)\<close>: local midnight of that day; a year argument from 0
  to 99 stands for 1900 + year.\<close>

definition newDateYMD :: "TimeZone \<Rightarrow> int \<Rightarrow> int \<Rightarrow> int \<Rightarrow> int" where
  "newDateYMD tz year month date =
     (let yr = (if 0 \<le> year \<and> year \<le> 99 then 1900 + year else year)
      in UTC tz (MakeDate (MakeDay yr month date) 0))"

text \<open>The date part of \<^verbatim>\<open>toISOString\<close>: four digits for the years 0 to 9999, a sign and six
  digits otherwise.\<close>

definition isoYear :: "int \<Rightarrow> string" where
  "isoYear y =
     (if 0 \<le> y \<and> y \<le> 9999 then pad 4 (nat y)
      else (if y < 0 then CHR ''-'' else CHR ''+'') # pad 6 (nat \<bar>y\<bar>))"

definition isoDate :: "int \<Rightarrow> int \<Rightarrow> int \<Rightarrow> string" where
  "isoDate y m d = isoYear y @ ''-'' @ pad 2 (nat m) @ ''-'' @ pad 2 (nat d)"

text \<open>\<^verbatim>\<open>formatDate(date) = date.toISOString().split('T')[0]\<close> for a valid date: the UTC
  calendar date. On an invalid date \<^verbatim>\<open>toISOString\<close> throws; the caller below that can
  meet one models the throw.\<close>

definition formatDate :: "int \<Rightarrow> string" where
  "formatDate t = isoDate (YearFromTime t) (MonthFromTime t + 1) (DateFromTime t)"

definition addDays :: "TimeZone \<Rightarrow> int \<Rightarrow> int \<Rightarrow> int" where
  "addDays tz date days = setDate tz date (getDate tz date + days)"

text \<open>\<^verbatim>\<open>new Date(s).getTime()\<close> for a string: the date-only forms of the ISO format
  (\<^verbatim>\<open>YYYY-MM-DD\<close>, \<^verbatim>\<open>+YYYYYY-MM-DD\<close>, \<^verbatim>\<open>-YYYYYY-MM-DD\<close>) are read as UTC midnight. These are
  the strings \<^verbatim>\<open>formatDate\<close> prints and a date input holds; any other string, the empty one
  of a cleared date input included, is taken to give NaN (\<open>None\<close>).\<close>

definition readYear :: "string \<Rightarrow> (int \<times> string) option" where
  "readYear s =
     (case s of
        [] \<Rightarrow> None
      | c # r \<Rightarrow>
          if c = CHR ''+'' then
            (case readDigits 6 r of None \<Rightarrow> None | Some (n, r') \<Rightarrow> Some (int n, r'))
          else if c = CHR ''-'' then
            (case readDigits 6 r of None \<Rightarrow> None
             | Some (n, r') \<Rightarrow> if n = 0 then None else Some (- int n, r'))
          else
            (case readDigits 4 s of None \<Rightarrow> None | Some (n, r') \<Rightarrow> Some (int n, r')))"

definition readSep :: "string \<Rightarrow> string option" where
  "readSep s = (case s of [] \<Rightarrow> None | c # r \<Rightarrow> if c = CHR ''-'' then Some r else None)"

definition DaysInMonth :: "int \<Rightarrow> int \<Rightarrow> int" where
  "DaysInMonth y m = monthStart (leapDays y) m - monthStart (leapDays y) (m - 1)"

definition Date_parse :: "string \<Rightarrow> int option" where
  "Date_parse s =
     (case readYear s of None \<Rightarrow> None
      | Some (y, s1) \<Rightarrow>
     (case readSep s1 of None \<Rightarrow> None
      | Some s2 \<Rightarrow>
     (case readDigits 2 s2 of None \<Rightarrow> None
      | Some (m, s3) \<Rightarrow>
     (case readSep s3 of None \<Rightarrow> None
      | Some s4 \<Rightarrow>
     (case readDigits 2 s4 of None \<Rightarrow> None
      | Some (d, s5) \<Rightarrow>
          if s5 = [] \<and> 1 \<le> m \<and> m \<le> 12 \<and> 1 \<le> d \<and> int d \<le> DaysInMonth y (int m)
          then Some (MakeDate (MakeDay y (int m - 1) (int d)) 0)
          else None)))))"

text \<open>Arithmetic on numbers that may be NaN.\<close>

fun numSub :: "int option \<Rightarrow> int option \<Rightarrow> int option" where
  "numSub (Some a) (Some b) = Some (a - b)"
| "numSub _ _ = None"

fun numAdd :: "int option \<Rightarrow> int option \<Rightarrow> int option" where
  "numAdd (Some a) (Some b) = Some (a + b)"
| "numAdd _ _ = None"

section \<open>The planner's state\<close>

datatype TaskCategory = ToDo | InProgress | Review | Completed

text \<open>\<^verbatim>\<open>type TimeFilter = 'all' | '1' | '2' | '3'\<close>, with \<^verbatim>\<open>parseInt\<close>, which the planner calls
  on the last three only; its value at \<^verbatim>\<open>'all'\<close> (NaN) is never used and is 0 here.\<close>

datatype TimeFilter = TF_all | TF_1 | TF_2 | TF_3

fun parseInt :: "TimeFilter \<Rightarrow> int" where
  "parseInt TF_1 = 1"
| "parseInt TF_2 = 2"
| "parseInt TF_3 = 3"
| "parseInt TF_all = 0"

text \<open>The fields of the four interfaces carry a prefix where two interfaces share a field
  name (\<^verbatim>\<open>startDate\<close>, \<^verbatim>\<open>endDate\<close>, \<^verbatim>\<open>name\<close>, \<^verbatim>\<open>category\<close>) or the name is taken
  (\<^verbatim>\<open>id\<close>).\<close>

record Task =
  t_id :: string
  t_name :: string
  t_startDate :: string
  t_endDate :: string
  t_category :: TaskCategory

datatype ResizeType = RStart | REnd

record DragState =
  isDragging :: bool
  isResizing :: bool
  resizeType :: "ResizeType option"
  taskId :: "string option"
  d_startDate :: "string option"
  d_endDate :: "string option"

record CreateTaskState =
  isSelecting :: bool
  c_startDate :: "string option"
  c_currentDate :: "string option"

record ModalTaskState =
  m_name :: string
  m_category :: TaskCategory
  m_startDate :: string
  m_endDate :: string

text \<open>The component's state cells that the handlers read and write.\<close>

record Planner =
  tasks :: "Task list"
  showModal :: bool
  modalTask :: ModalTaskState
  dragState :: DragState
  createTaskState :: CreateTaskState

definition idleDrag :: DragState where
  "idleDrag = \<lparr>isDragging = False, isResizing = False, resizeType = None, taskId = None,
     d_startDate = None, d_endDate = None\<rparr>"

definition idleCreate :: CreateTaskState where
  "idleCreate = \<lparr>isSelecting = False, c_startDate = None, c_currentDate = None\<rparr>"

definition emptyModal :: ModalTaskState where
  "emptyModal = \<lparr>m_name = [], m_category = ToDo, m_startDate = [], m_endDate = []\<rparr>"

text \<open>The state of the first render.\<close>

definition initialPlanner :: Planner where
  "initialPlanner = \<lparr>tasks = [], showModal = False, modalTask = emptyModal,
     dragState = idleDrag, createTaskState = idleCreate\<rparr>"

section \<open>Grid and filter\<close>

text \<open>The loop of \<^verbatim>\<open>getDaysInMonth\<close>: push a copy of \<open>current\<close>, advance it by one day,
  until 42 dates are collected. (The function's \<^verbatim>\<open>lastDay\<close> is computed and never used.)\<close>

function daysLoop :: "TimeZone \<Rightarrow> int list \<Rightarrow> int \<Rightarrow> int list" where
  "daysLoop tz days current =
     (if length days < 42
      then daysLoop tz (days @ [current]) (setDate tz current (getDate tz current + 1))
      else days)"
  by pat_completeness auto
termination
  by (relation "measure (\<lambda>(tz, days, current). 42 - length days)") auto

declare daysLoop.simps [simp del]

definition getDaysInMonth :: "TimeZone \<Rightarrow> int \<Rightarrow> int list" where
  "getDaysInMonth tz date =
     (let year = getFullYear tz date;
          month = getMonth tz date;
          firstDay = newDateYMD tz year month 1;
          startDate = setDate tz firstDay (getDate tz firstDay - getDay tz firstDay)
      in daysLoop tz [] startDate)"

definition isDateInRange :: "string \<Rightarrow> string \<Rightarrow> string \<Rightarrow> bool" where
  "isDateInRange date start end' = (date \<ge> start \<and> date \<le> end')"

text \<open>\<^verbatim>\<open>filteredTasks\<close>; \<open>today\<close> is the value of \<^verbatim>\<open>new Date()\<close> when the memo is computed.\<close>

definition filteredTasks ::
  "TimeZone \<Rightarrow> int \<Rightarrow> Task list \<Rightarrow> TaskCategory list \<Rightarrow> string \<Rightarrow> TimeFilter \<Rightarrow> Task list"
  where
  "filteredTasks tz today ts categoryFilters searchTerm timeFilter =
     (let filtered = filter (\<lambda>task. t_category task \<in> set categoryFilters \<and>
                         includesStr (toLowerCase (t_name task)) (toLowerCase searchTerm)) ts
      in if timeFilter \<noteq> TF_all then
           (let weeks = parseInt timeFilter;
                futureDate = addDays tz today (weeks * 7);
                todayStr = formatDate today;
                futureDateStr = formatDate futureDate
            in filter (\<lambda>task. t_startDate task \<le> futureDateStr \<and> t_endDate task \<ge> todayStr)
                 filtered)
         else filtered)"

section \<open>Handlers\<close>

text \<open>\<^verbatim>\<open>handleMouseDown\<close> on a day cell; \<open>onCell\<close> is \<^verbatim>\<open>e.target === e.currentTarget\<close>.\<close>

definition handleMouseDown :: "bool \<Rightarrow> string \<Rightarrow> Planner \<Rightarrow> Planner" where
  "handleMouseDown onCell dateStr s =
     (if onCell
      then s\<lparr>createTaskState :=
             \<lparr>isSelecting = True, c_startDate = Some dateStr, c_currentDate = Some dateStr\<rparr>\<rparr>
      else s)"

definition handleMouseEnter :: "string \<Rightarrow> Planner \<Rightarrow> Planner" where
  "handleMouseEnter dateStr s =
     (if isSelecting (createTaskState s) \<and> truthy (c_startDate (createTaskState s))
      then s\<lparr>createTaskState := (createTaskState s)\<lparr>c_currentDate := Some dateStr\<rparr>\<rparr>
      else s)"

definition handleMouseUp :: "Planner \<Rightarrow> Planner" where
  "handleMouseUp s =
     (let cs = createTaskState s;
          s1 = (case (c_startDate cs, c_currentDate cs) of
                  (Some a, Some c) \<Rightarrow>
                    if isSelecting cs \<and> a \<noteq> [] \<and> c \<noteq> [] then
                      (let start = (if a \<le> c then a else c);
                           end' = (if a \<le> c then c else a)
                       in s\<lparr>modalTask := \<lparr>m_name = [], m_category = ToDo,
                                          m_startDate = start, m_endDate = end'\<rparr>,
                            showModal := True\<rparr>)
                    else s
                | _ \<Rightarrow> s)
      in s1\<lparr>createTaskState := idleCreate\<rparr>)"

text \<open>\<^verbatim>\<open>handleTaskMouseDown\<close>; \<open>clientX\<close> is the pointer's x, \<open>left\<close> and \<open>width\<close> are those of
  the chip's bounding rectangle.\<close>

definition handleTaskMouseDown ::
  "real \<Rightarrow> real \<Rightarrow> real \<Rightarrow> string \<Rightarrow> Task \<Rightarrow> Planner \<Rightarrow> Planner" where
  "handleTaskMouseDown clientX left width tid task s =
     (let clickX = clientX - left;
          rt = (if clickX < 10 then Some RStart
                else if clickX > width - 10 then Some REnd else None)
      in s\<lparr>dragState :=
             \<lparr>isDragging = (rt = None), isResizing = (rt \<noteq> None), resizeType = rt,
              taskId = Some tid, d_startDate = Some (t_startDate task),
              d_endDate = Some (t_endDate task)\<rparr>\<rparr>)"

text \<open>\<^verbatim>\<open>handleTaskDrag\<close>; \<open>targetDate\<close> is the \<^verbatim>\<open>data-date\<close> attribute of the day tile under the
  pointer (\<open>None\<close> when there is none). In the move branch \<^verbatim>\<open>formatDate\<close> throws a
  \<^verbatim>\<open>RangeError\<close> on an invalid date, before any state is set.\<close>

datatype exn = RangeError

definition taskDuration :: "Task \<Rightarrow> int option" where
  "taskDuration task = numSub (Date_parse (t_endDate task)) (Date_parse (t_startDate task))"

definition newEndDate :: "Task \<Rightarrow> string \<Rightarrow> int option" where
  "newEndDate task targetDate = numAdd (Date_parse targetDate) (taskDuration task)"

definition handleTaskDrag :: "string option \<Rightarrow> Planner \<Rightarrow> exn + Planner" where
  "handleTaskDrag targetDate s =
     (let ds = dragState s in
      if \<not> isDragging ds \<and> \<not> isResizing ds then Inr s
      else
        (case (targetDate, taskId ds) of
           (Some td, Some tid) \<Rightarrow>
             if td \<noteq> [] \<and> tid \<noteq> [] then
               (case find (\<lambda>t. t_id t = tid) (tasks s) of
                  None \<Rightarrow> Inr s
                | Some task \<Rightarrow>
                    if isDragging ds then
                      (case newEndDate task td of
                         None \<Rightarrow> Inl RangeError
                       | Some e \<Rightarrow>
                           Inr (s\<lparr>dragState :=
                                  ds\<lparr>d_startDate := Some td,
                                     d_endDate := Some (formatDate e)\<rparr>\<rparr>))
                    else if isResizing ds then
                      (if resizeType ds = Some RStart then
                         (if td \<le> t_endDate task
                          then Inr (s\<lparr>dragState := ds\<lparr>d_startDate := Some td\<rparr>\<rparr>)
                          else Inr s)
                       else if resizeType ds = Some REnd then
                         (if td \<ge> t_startDate task
                          then Inr (s\<lparr>dragState := ds\<lparr>d_endDate := Some td\<rparr>\<rparr>)
                          else Inr s)
                       else Inr s)
                    else Inr s)
             else Inr s
         | _ \<Rightarrow> Inr s))"

definition handleTaskDragEnd :: "Planner \<Rightarrow> Planner" where
  "handleTaskDragEnd s =
     (let ds = dragState s;
          s1 = (case taskId ds of
                  None \<Rightarrow> s
                | Some tid \<Rightarrow>
                    if tid \<noteq> [] \<and> (truthy (d_startDate ds) \<or> truthy (d_endDate ds)) then
                      s\<lparr>tasks :=
                          map (\<lambda>task.
                                 if t_id task = tid
                                 then task\<lparr>t_startDate := orElse (d_startDate ds) (t_startDate task),
                                          t_endDate := orElse (d_endDate ds) (t_endDate task)\<rparr>
                                 else task)
                              (tasks s)\<rparr>
                    else s)
      in s1\<lparr>dragState := idleDrag\<rparr>)"

text \<open>\<^verbatim>\<open>createTask\<close>; \<open>now\<close> is the value of \<^verbatim>\<open>Date.now()\<close>.\<close>

definition createTask :: "int \<Rightarrow> Planner \<Rightarrow> Planner" where
  "createTask now s =
     (if trim (m_name (modalTask s)) \<noteq> [] then
        (let newTask = \<lparr>t_id = numToString now,
                        t_name = trim (m_name (modalTask s)),
                        t_startDate = m_startDate (modalTask s),
                        t_endDate = m_endDate (modalTask s),
                        t_category = m_category (modalTask s)\<rparr>
         in s\<lparr>tasks := tasks s @ [newTask], showModal := False, modalTask := emptyModal\<rparr>)
      else s)"

text \<open>The change handlers of the creation form's inputs, and its Cancel button.\<close>

definition setModalName :: "string \<Rightarrow> Planner \<Rightarrow> Planner" where
  "setModalName v s = s\<lparr>modalTask := (modalTask s)\<lparr>m_name := v\<rparr>\<rparr>"

definition setModalCategory :: "TaskCategory \<Rightarrow> Planner \<Rightarrow> Planner" where
  "setModalCategory v s = s\<lparr>modalTask := (modalTask s)\<lparr>m_category := v\<rparr>\<rparr>"

definition setModalStartDate :: "string \<Rightarrow> Planner \<Rightarrow> Planner" where
  "setModalStartDate v s = s\<lparr>modalTask := (modalTask s)\<lparr>m_startDate := v\<rparr>\<rparr>"

definition setModalEndDate :: "string \<Rightarrow> Planner \<Rightarrow> Planner" where
  "setModalEndDate v s = s\<lparr>modalTask := (modalTask s)\<lparr>m_endDate := v\<rparr>\<rparr>"

definition cancelModal :: "Planner \<Rightarrow> Planner" where
  "cancelModal s = s\<lparr>showModal := False\<rparr>"

text \<open>The grid's \<^verbatim>\<open>onMouseUp\<close> and \<^verbatim>\<open>onMouseLeave\<close> run the same two handlers in the same
  order; \<^verbatim>\<open>onMouseMove\<close> is \<^verbatim>\<open>handleTaskDrag\<close>. A handler that throws sets no state.\<close>

definition onMouseUp :: "Planner \<Rightarrow> Planner" where
  "onMouseUp s = handleTaskDragEnd (handleMouseUp s)"

definition onMouseLeave :: "Planner \<Rightarrow> Planner" where
  "onMouseLeave s = handleTaskDragEnd (handleMouseUp s)"

definition onMouseMove :: "string option \<Rightarrow> Planner \<Rightarrow> Planner" where
  "onMouseMove targetDate s = (case handleTaskDrag targetDate s of Inl e \<Rightarrow> s | Inr s' \<Rightarrow> s')"

text \<open>A drag over the grid: the pointer moves of one gesture, in order.\<close>

fun dragOver :: "string option list \<Rightarrow> Planner \<Rightarrow> Planner" where
  "dragOver [] s = s"
| "dragOver (d # ds) s = dragOver ds (onMouseMove d s)"

text \<open>The gesture states of a task gesture, read off the flags of \<^verbatim>\<open>dragState\<close>: a resize
  of one edge, or a move, of the task \<open>tid\<close> with provisional range \<open>ps\<close> to \<open>pe\<close>.\<close>

definition Resizing :: "ResizeType \<Rightarrow> string \<Rightarrow> string \<Rightarrow> string \<Rightarrow> Planner \<Rightarrow> bool" where
  "Resizing edge tid ps pe s =
     (dragState s = \<lparr>isDragging = False, isResizing = True, resizeType = Some edge,
        taskId = Some tid, d_startDate = Some ps, d_endDate = Some pe\<rparr>)"

definition Moving :: "string \<Rightarrow> string \<Rightarrow> string \<Rightarrow> Planner \<Rightarrow> bool" where
  "Moving tid ps pe s =
     (dragState s = \<lparr>isDragging = True, isResizing = False, resizeType = None,
        taskId = Some tid, d_startDate = Some ps, d_endDate = Some pe\<rparr>)"

text \<open>A date key is a string of ten characters that reads as a date: \<^verbatim>\<open>YYYY-MM-DD\<close> with a
  month and a day of that month. It is the string that \<^verbatim>\<open>formatDate\<close> prints for that date
  (\<open>formatDate_Date_parse\<close> below).\<close>

definition isDateKey :: "string \<Rightarrow> bool" where
  "isDateKey s = (Date_parse s \<noteq> None \<and> length s = 10)"


text \<open>The handler of the Previous button: \<^verbatim>\<open>new Date(year, month - 1)\<close>, the day defaulting
  to 1.\<close>

definition previousMonth :: "TimeZone \<Rightarrow> int \<Rightarrow> int" where
  "previousMonth tz currentDate =
     newDateYMD tz (getFullYear tz currentDate) (getMonth tz currentDate - 1) 1"


definition rangesIntersect :: "string \<Rightarrow> string \<Rightarrow> string \<Rightarrow> string \<Rightarrow> bool" where
  "rangesIntersect aStart aEnd bStart bEnd = (aStart \<le> bEnd \<and> bStart \<le> aEnd)"

text \<open>The task of the specification's scenarios, a store that holds it, and a task of the
  single day 2024-04-06.\<close>

definition designReview :: Task where
  "designReview = \<lparr>t_id = ''1710028800000'', t_name = ''Design review'',
     t_startDate = ''2024-03-10'', t_endDate = ''2024-03-12'', t_category = ToDo\<rparr>"

definition scenario :: Planner where
  "scenario = initialPlanner\<lparr>tasks := [designReview]\<rparr>"

definition launch :: Task where
  "launch = \<lparr>t_id = ''1711324800000'', t_name = ''Launch'',
     t_startDate = ''2024-04-06'', t_endDate = ''2024-04-06'', t_category = ToDo\<rparr>"

text \<open>Two tasks created at one reading of the clock, each from a selection dragged over
  the grid: they share their id. A task whose start date was cleared in the creation form,
  and a task of the last two days of the year 9999.\<close>

definition kickoff :: Task where
  "kickoff = \<lparr>t_id = ''1710028800000'', t_name = ''Kickoff'',
     t_startDate = ''2024-03-10'', t_endDate = ''2024-03-10'', t_category = ToDo\<rparr>"

definition demo :: Task where
  "demo = \<lparr>t_id = ''1710028800000'', t_name = ''Demo'',
     t_startDate = ''2024-03-11'', t_endDate = ''2024-03-20'', t_category = ToDo\<rparr>"

definition sameClock :: Planner where
  "sameClock =
     createTask 1710028800000
       (setModalName ''Demo''
         (onMouseUp (handleMouseEnter ''2024-03-20'' (handleMouseDown True ''2024-03-11''
           (createTask 1710028800000
             (setModalName ''Kickoff''
               (onMouseUp (handleMouseDown True ''2024-03-10'' initialPlanner))))))))"

definition draft :: Task where
  "draft = \<lparr>t_id = ''1710028800000'', t_name = ''Draft'',
     t_startDate = '''', t_endDate = ''2024-03-10'', t_category = ToDo\<rparr>"

definition undated :: Planner where
  "undated =
     createTask 1710028800000
       (setModalName ''Draft''
         (setModalStartDate ''''
           (onMouseUp (handleMouseDown True ''2024-03-10'' initialPlanner))))"



section \<open>Auxiliary facts\<close>

subsection \<open>Trimming\<close>

lemma dropWhile_hd_stable: "xs = [] \<or> \<not> P (hd xs) \<Longrightarrow> dropWhile P xs = xs"
  by (cases xs) auto

lemma dropWhile_hd: "dropWhile P xs \<noteq> [] \<Longrightarrow> \<not> P (hd (dropWhile P xs))"
  by (metis hd_dropWhile)

lemma dropWhile_last: "dropWhile P xs \<noteq> [] \<Longrightarrow> last (dropWhile P xs) = last xs"
  by (induction xs) (auto split: if_splits)

lemma trim_ends:
  "trim s = [] \<or> (\<not> isWhiteSpace (hd (trim s)) \<and> \<not> isWhiteSpace (last (trim s)))"
proof -
  define u where "u = dropWhile isWhiteSpace s"
  define v where "v = dropWhile isWhiteSpace (rev u)"
  have t: "trim s = rev v" by (simp add: trim_def u_def v_def)
  show ?thesis
  proof (cases "v = []")
    case True
    then show ?thesis by (simp add: t)
  next
    case False
    have u: "u \<noteq> []"
    proof
      assume "u = []"
      then have "v = []" by (simp add: v_def)
      with False show False by simp
    qed
    have hv: "\<not> isWhiteSpace (hd v)"
      using False unfolding v_def by (rule dropWhile_hd)
    have "last v = last (rev u)"
      using False unfolding v_def by (rule dropWhile_last)
    then have lv: "last v = hd u" using u by (simp add: last_rev)
    have "\<not> isWhiteSpace (hd u)"
      using u unfolding u_def by (rule dropWhile_hd)
    with lv have "\<not> isWhiteSpace (last v)" by simp
    with hv False show ?thesis by (simp add: t hd_rev last_rev)
  qed
qed

lemma trim_idem: "trim (trim s) = trim s"
proof (cases "trim s = []")
  case True
  have "trim [] = []" by (simp add: trim_def)
  with True show ?thesis by simp
next
  case False
  with trim_ends [of s] have h: "\<not> isWhiteSpace (hd (trim s))" and l: "\<not> isWhiteSpace (last (trim s))"
    by auto
  have 1: "dropWhile isWhiteSpace (trim s) = trim s"
    using h by (intro dropWhile_hd_stable) simp
  have 2: "dropWhile isWhiteSpace (rev (trim s)) = rev (trim s)"
    using l False by (intro dropWhile_hd_stable) (simp add: hd_rev)
  show ?thesis
    unfolding trim_def [of "trim s"] 1 2 by simp
qed

subsection \<open>Decimal digits\<close>

lemma of_char_digitChar: "d < 10 \<Longrightarrow> (of_char (digitChar d) :: nat) = 48 + d"
proof -
  assume "d < 10"
  then have "d \<in> {0, 1, 2, 3, 4, 5, 6, 7, 8, 9}" by auto
  then show ?thesis by (auto simp add: digitChar_def)
qed

lemma digitsVal_snoc: "digitsVal (xs @ [c]) = 10 * digitsVal xs + ((of_char c :: nat) - 48)"
  by (simp add: digitsVal_def)

lemma digitsVal_digits: "digitsVal (digits n) = n"
proof (induction n rule: digits.induct)
  case (1 n)
  show ?case
  proof (cases "n < 10")
    case True
    then show ?thesis by (subst digits.simps) (simp add: digitsVal_def of_char_digitChar)
  next
    case False
    then have "digitsVal (digits (n div 10)) = n div 10" using 1 by simp
    then show ?thesis using False
      by (subst digits.simps) (simp add: digitsVal_snoc of_char_digitChar)
  qed
qed

lemma isDigit_digitChar: "d < 10 \<Longrightarrow> isDigit (digitChar d)"
  by (simp add: isDigit_def of_char_digitChar)

lemma digits_isDigit: "list_all isDigit (digits n)"
proof (induction n rule: digits.induct)
  case (1 n)
  show ?case
  proof (cases "n < 10")
    case True
    then show ?thesis by (subst digits.simps) (simp add: isDigit_digitChar)
  next
    case False
    then show ?thesis using 1
      by (subst digits.simps) (simp add: isDigit_digitChar)
  qed
qed

lemma digits_nonempty: "digits n \<noteq> []"
  by (subst digits.simps) simp

lemma digits_inj: "digits m = digits n \<Longrightarrow> m = n"
  by (metis digitsVal_digits)

lemma hd_digits_isDigit: "isDigit (hd (digits n))"
  using digits_isDigit [of n] digits_nonempty [of n] by (cases "digits n") auto

lemma numToString_inj: "numToString a = numToString b \<Longrightarrow> a = b"
proof -
  assume e: "numToString a = numToString b"
  have nd: "\<not> isDigit CHR ''-''" by (simp add: isDigit_def)
  have neq: "\<And>m n. CHR ''-'' # digits m \<noteq> digits n"
  proof
    fix m n assume "CHR ''-'' # digits m = digits n"
    then have "hd (digits n) = CHR ''-''" by (metis list.sel(1))
    with hd_digits_isDigit [of n] nd show False by simp
  qed
  show ?thesis
  proof (cases "a < 0"; cases "b < 0")
    assume "a < 0" "b < 0"
    with e have "digits (nat (- a)) = digits (nat (- b))" by (simp add: numToString_def)
    then have "nat (- a) = nat (- b)" by (rule digits_inj)
    with \<open>a < 0\<close> \<open>b < 0\<close> show ?thesis by simp
  next
    assume "a < 0" "\<not> b < 0"
    with e neq show ?thesis by (simp add: numToString_def)
  next
    assume "\<not> a < 0" "b < 0"
    with e neq [of "nat (- b)" "nat a"] show ?thesis by (simp add: numToString_def)
  next
    assume "\<not> a < 0" "\<not> b < 0"
    with e have "digits (nat a) = digits (nat b)" by (simp add: numToString_def)
    then have "nat a = nat b" by (rule digits_inj)
    with \<open>\<not> a < 0\<close> \<open>\<not> b < 0\<close> show ?thesis by simp
  qed
qed

subsection \<open>Years, months and days\<close>

lemma div_step:
  fixes a k :: int
  assumes "0 < k"
  shows "(a + 1) div k = a div k + (if (a + 1) mod k = 0 then 1 else 0)"
proof (cases "(a + 1) mod k = 0")
  case True
  define q where "q = (a + 1) div k"
  have "a + 1 = k * q + (a + 1) mod k" unfolding q_def by simp
  with True have "a = k * (q - 1) + (k - 1)" by (simp add: algebra_simps)
  then have "a div k = q - 1" using assms
    by (intro int_div_pos_eq [of a k "q - 1" "k - 1"]) simp_all
  then show ?thesis using True by (simp add: q_def)
next
  case False
  define r where "r = a mod k"
  have r: "0 \<le> r" "r < k" using assms by (simp_all add: r_def)
  have a: "a = k * (a div k) + r" by (simp add: r_def)
  have "r + 1 \<noteq> k"
  proof
    assume "r + 1 = k"
    with a have "a + 1 = k * (a div k + 1) + 0" by (simp add: algebra_simps)
    then have "(a + 1) mod k = 0" using assms
      by (intro int_mod_pos_eq [of "a + 1" k "a div k + 1" 0]) simp_all
    with False show False by simp
  qed
  with r have r1: "r + 1 < k" by simp
  from a have "a + 1 = k * (a div k) + (r + 1)" by simp
  then have "(a + 1) div k = a div k" using r r1 by (intro int_div_pos_eq [of "a + 1" k "a div k" "r + 1"]) simp_all
  with False show ?thesis by simp
qed

lemma mod_shift: "((y::int) - k * c) mod k = y mod k"
proof -
  have "y - k * c = y + k * (- c)" by simp
  then show ?thesis by (simp only: mod_mult_self2)
qed

lemma m4: "((y::int) - 1968) mod 4 = 0 \<longleftrightarrow> y mod 4 = 0"
  using mod_shift [of y 4 492] by simp
lemma m100: "((y::int) - 1900) mod 100 = 0 \<longleftrightarrow> y mod 100 = 0"
  using mod_shift [of y 100 19] by simp
lemma m400: "((y::int) - 1600) mod 400 = 0 \<longleftrightarrow> y mod 400 = 0"
  using mod_shift [of y 400 4] by simp
lemma mod_0_trans: "(k::int) dvd n \<Longrightarrow> y mod n = 0 \<Longrightarrow> y mod k = 0"
proof -
  assume k: "k dvd n" and "y mod n = 0"
  then have "n dvd y" by (simp add: mod_eq_0_iff_dvd)
  with k have "k dvd y" by (rule dvd_trans)
  then show ?thesis by (simp add: mod_eq_0_iff_dvd)
qed

lemma m4_100: "(y::int) mod 100 = 0 \<Longrightarrow> y mod 4 = 0"
  by (rule mod_0_trans [of 4 100]) simp_all

lemma m100_400: "(y::int) mod 400 = 0 \<Longrightarrow> y mod 100 = 0"
  by (rule mod_0_trans [of 100 400]) simp_all

lemma DayFromYear_Suc: "DayFromYear (y + 1) = DayFromYear y + DaysInYear y"
proof -
  have 1: "(y + 1 - 1969) div 4 = (y - 1969) div 4 + (if y mod 4 = 0 then 1 else 0)"
    using div_step [of 4 "y - 1969"] m4 [of y] by (simp add: algebra_simps)
  have 2: "(y + 1 - 1901) div 100 = (y - 1901) div 100 + (if y mod 100 = 0 then 1 else 0)"
    using div_step [of 100 "y - 1901"] m100 [of y] by (simp add: algebra_simps)
  have 3: "(y + 1 - 1601) div 400 = (y - 1601) div 400 + (if y mod 400 = 0 then 1 else 0)"
    using div_step [of 400 "y - 1601"] m400 [of y] by (simp add: algebra_simps)
  show ?thesis
    unfolding DayFromYear_def DaysInYear_def 1 2 3
    using m4_100 [of y] m100_400 [of y] by auto
qed


lemma DaysInYear_cases: "DaysInYear y = 365 \<or> DaysInYear y = 366"
  by (simp add: DaysInYear_def)

lemma leapDays_cases: "leapDays y = 0 \<or> leapDays y = 1"
  using DaysInYear_cases [of y] by (auto simp add: leapDays_def)

lemma DayFromYear_add: "DayFromYear y + 365 * int n \<le> DayFromYear (y + int n)"
proof (induction n)
  case 0
  then show ?case by simp
next
  case (Suc n)
  have "DayFromYear (y + int (Suc n)) = DayFromYear (y + int n) + DaysInYear (y + int n)"
    using DayFromYear_Suc [of "y + int n"] by (simp add: algebra_simps)
  with Suc DaysInYear_cases [of "y + int n"] show ?case by auto
qed

lemma DayFromYear_mono: "y \<le> y' \<Longrightarrow> DayFromYear y \<le> DayFromYear y'"
  using DayFromYear_add [of y "nat (y' - y)"] by simp

lemma DayFromYear_less: "y < y' \<Longrightarrow> DayFromYear (y + 1) \<le> DayFromYear y'"
  by (rule DayFromYear_mono) simp

lemma div_lower:
  fixes a k :: int
  assumes "0 < k"
  shows "k * (a div k) \<le> a"
proof -
  have "a = k * (a div k) + a mod k" by simp
  moreover have "0 \<le> a mod k" using assms by simp
  ultimately show ?thesis by linarith
qed

lemma div_upper:
  fixes a k :: int
  assumes "0 < k"
  shows "a < k * (a div k) + k"
proof -
  have "a = k * (a div k) + a mod k" by simp
  moreover have "a mod k < k" using assms by simp
  ultimately show ?thesis by linarith
qed

lemma DayFromYear_lower: "146097 * (y - 1970) - 506 \<le> 400 * DayFromYear y"
proof -
  define Y where "Y = y - 1970"
  define a where "a = (y - 1969) div 4"
  define b where "b = (y - 1901) div 100"
  define c where "c = (y - 1601) div 400"
  have "y - 1969 < 4 * a + 4" unfolding a_def by (rule div_upper) simp
  then have a: "Y - 2 \<le> 4 * a" by (simp add: Y_def)
  have "100 * b \<le> y - 1901" unfolding b_def by (rule div_lower) simp
  then have b: "100 * b \<le> Y + 69" by (simp add: Y_def)
  have "y - 1601 < 400 * c + 400" unfolding c_def by (rule div_upper) simp
  then have c: "Y - 30 \<le> 400 * c" by (simp add: Y_def)
  have "DayFromYear y = 365 * Y + a - b + c"
    by (simp add: DayFromYear_def a_def b_def c_def Y_def)
  with a b c have "146097 * Y - 506 \<le> 400 * DayFromYear y" by linarith
  then show ?thesis by (simp add: Y_def)
qed

lemma DayFromYear_upper: "400 * DayFromYear y \<le> 146097 * (y - 1970) + 589"
proof -
  define Y where "Y = y - 1970"
  define a where "a = (y - 1969) div 4"
  define b where "b = (y - 1901) div 100"
  define c where "c = (y - 1601) div 400"
  have "4 * a \<le> y - 1969" unfolding a_def by (rule div_lower) simp
  then have a: "4 * a \<le> Y + 1" by (simp add: Y_def)
  have "y - 1901 < 100 * b + 100" unfolding b_def by (rule div_upper) simp
  then have b: "Y - 30 \<le> 100 * b" by (simp add: Y_def)
  have "400 * c \<le> y - 1601" unfolding c_def by (rule div_lower) simp
  then have c: "400 * c \<le> Y + 369" by (simp add: Y_def)
  have "DayFromYear y = 365 * Y + a - b + c"
    by (simp add: DayFromYear_def a_def b_def c_def Y_def)
  with a b c have "400 * DayFromYear y \<le> 146097 * Y + 589" by linarith
  then show ?thesis by (simp add: Y_def)
qed

lemma scaled_le: "400 * (x::int) \<le> 146097 * (Y - 1) + 589 \<Longrightarrow> 146097 * Y \<le> 400 * d \<Longrightarrow> x \<le> d"
  by (simp add: algebra_simps)

lemma scaled_less:
  "146097 * (Y + 2) - 506 \<le> 400 * (x::int) \<Longrightarrow> 400 * d < 146097 * Y + 146097 \<Longrightarrow> d < x"
  by (simp add: algebra_simps)

lemma YearFromDay_correct:
  "DayFromYear (YearFromDay d) \<le> d \<and> d < DayFromYear (YearFromDay d + 1)"
proof -
  define Y where "Y = (400 * d) div 146097"
  define y0 where "y0 = 1970 + Y"
  have b1: "146097 * Y \<le> 400 * d" unfolding Y_def by (rule div_lower) simp
  have b2: "400 * d < 146097 * Y + 146097" unfolding Y_def by (rule div_upper) simp
  have "400 * DayFromYear (y0 - 1) \<le> 146097 * (Y - 1) + 589"
    using DayFromYear_upper [of "y0 - 1"] by (simp add: y0_def)
  then have lo: "DayFromYear (y0 - 1) \<le> d" using b1 by (rule scaled_le)
  have "146097 * (Y + 2) - 506 \<le> 400 * DayFromYear (y0 + 1 + 1)"
    using DayFromYear_lower [of "y0 + 1 + 1"] by (simp add: y0_def)
  then have hi: "d < DayFromYear (y0 + 1 + 1)" using b2 by (rule scaled_less)
  have "YearFromDay d =
      (if DayFromYear (y0 + 1) \<le> d then y0 + 1
       else if DayFromYear y0 \<le> d then y0 else y0 - 1)"
    by (simp add: YearFromDay_def Y_def y0_def Let_def)
  with lo hi show ?thesis by auto
qed

lemma YearFromDay_unique:
  assumes "DayFromYear y \<le> d" and "d < DayFromYear (y + 1)"
  shows "YearFromDay d = y"
proof (rule ccontr)
  assume n: "YearFromDay d \<noteq> y"
  from YearFromDay_correct [of d]
  have c: "DayFromYear (YearFromDay d) \<le> d" "d < DayFromYear (YearFromDay d + 1)" by simp_all
  show False
  proof (cases "YearFromDay d < y")
    case True
    from DayFromYear_less [OF True] c(2) assms(1) show False by simp
  next
    case False
    with n have "y < YearFromDay d" by simp
    from DayFromYear_less [OF this] c(1) assms(2) show False by simp
  qed
qed

lemma monthOfDay_range: "0 \<le> monthOfDay l d \<and> monthOfDay l d \<le> 11"
  by (simp add: monthOfDay_def)

lemma monthOfDay_correct:
  assumes "0 \<le> d" and "d < 365 + l" and "l = 0 \<or> l = 1"
  shows "monthStart l (monthOfDay l d) \<le> d \<and> d < monthStart l (monthOfDay l d + 1)"
  using assms by (auto simp add: monthOfDay_def monthStart_def)

lemma monthOfDay_unique:
  assumes "0 \<le> m" and "m \<le> 11" and "l = 0 \<or> l = 1"
    and "monthStart l m \<le> d" and "d < monthStart l (m + 1)"
  shows "monthOfDay l d = m"
proof -
  from assms(1,2) have "m = 0 \<or> m = 1 \<or> m = 2 \<or> m = 3 \<or> m = 4 \<or> m = 5 \<or> m = 6 \<or>
      m = 7 \<or> m = 8 \<or> m = 9 \<or> m = 10 \<or> m = 11" by arith
  with assms(3-5) show ?thesis
    by (auto simp add: monthOfDay_def monthStart_def)
qed

lemma MakeDay_decompose:
  "MakeDay (YearFromTime t) (MonthFromTime t) (DateFromTime t) = Day t"
proof -
  have m: "0 \<le> MonthFromTime t \<and> MonthFromTime t \<le> 11"
    unfolding MonthFromTime_def by (rule monthOfDay_range)
  then have "MonthFromTime t div 12 = 0" "MonthFromTime t mod 12 = MonthFromTime t"
    by simp_all
  then show ?thesis
    by (simp add: MakeDay_def Let_def DateFromTime_def InLeapYear_def DayWithinYear_def)
qed

lemma MakeDay_add: "MakeDay y m (d + k) = MakeDay y m d + k"
  by (simp add: MakeDay_def Let_def)

lemma msPerDay_pos: "0 < msPerDay"
  by (simp add: msPerDay_def)

lemma Day_MakeDate: "0 \<le> tm \<Longrightarrow> tm < msPerDay \<Longrightarrow> Day (MakeDate dy tm) = dy"
  unfolding Day_def MakeDate_def
  by (intro int_div_pos_eq [of _ msPerDay dy tm]) (simp_all add: algebra_simps)

lemma TimeWithinDay_range: "0 \<le> TimeWithinDay t \<and> TimeWithinDay t < msPerDay"
  using msPerDay_pos by (simp add: TimeWithinDay_def)

lemma MakeDate_Day: "MakeDate (Day t) (TimeWithinDay t) = t"
  by (simp add: MakeDate_def Day_def TimeWithinDay_def)

text \<open>Setting the day of the month \<open>k\<close> days on moves the time value by \<open>k\<close> whole days
  when the offset by which the new local time is read back is the one in force now; in a
  zone of constant offset that is always so.\<close>

lemma LocalTime_fixed: "LocalTime (fixedOffset c) t = t + c"
  by (simp add: LocalTime_def fixedOffset_def)

lemma UTC_fixed: "UTC (fixedOffset c) t = t - c"
  by (simp add: UTC_def fixedOffset_def)

lemma setDate_shift_same_offset:
  assumes "localOffset tz (LocalTime tz t + k * msPerDay) = utcOffset tz t"
  shows "setDate tz t (getDate tz t + k) = t + k * msPerDay"
proof -
  let ?lt = "LocalTime tz t"
  have "MakeDay (YearFromTime ?lt) (MonthFromTime ?lt) (DateFromTime ?lt + k) = Day ?lt + k"
    by (simp only: MakeDay_add MakeDay_decompose)
  then have "setDate tz t (getDate tz t + k) = UTC tz (MakeDate (Day ?lt + k) (TimeWithinDay ?lt))"
    by (simp add: setDate_def getDate_def Let_def)
  also have "MakeDate (Day ?lt + k) (TimeWithinDay ?lt) = ?lt + k * msPerDay"
    using MakeDate_Day [of ?lt] by (simp add: MakeDate_def algebra_simps)
  finally show ?thesis using assms by (simp add: UTC_def LocalTime_def)
qed

lemma setDate_shift:
  "setDate (fixedOffset c) t (getDate (fixedOffset c) t + k) = t + k * msPerDay"
  by (rule setDate_shift_same_offset) (simp add: fixedOffset_def)

lemma addDays_same_offset:
  "localOffset tz (LocalTime tz date + n * msPerDay) = utcOffset tz date \<Longrightarrow>
   addDays tz date n = date + n * msPerDay"
  by (simp add: addDays_def setDate_shift_same_offset)

lemma addDays_eq: "addDays (fixedOffset c) date n = date + n * msPerDay"
  by (simp add: addDays_def setDate_shift)

lemma Day_shift: "Day (t + k * msPerDay) = Day t + k"
  using msPerDay_pos by (simp add: Day_def)


lemma monthStart_bounds:
  assumes "0 \<le> m" and "m \<le> 11" and "l = 0 \<or> l = 1"
  shows "0 \<le> monthStart l m \<and> monthStart l m < monthStart l (m + 1) \<and>
         monthStart l (m + 1) \<le> 365 + l"
proof -
  from assms(1,2) have "m = 0 \<or> m = 1 \<or> m = 2 \<or> m = 3 \<or> m = 4 \<or> m = 5 \<or> m = 6 \<or>
      m = 7 \<or> m = 8 \<or> m = 9 \<or> m = 10 \<or> m = 11" by arith
  with assms(3) show ?thesis by (auto simp add: monthStart_def)
qed

lemma decompose_MakeDay:
  assumes m: "0 \<le> m" "m \<le> 11"
    and d: "1 \<le> d" "d \<le> DaysInMonth y (m + 1)"
    and tm: "0 \<le> tm" "tm < msPerDay"
  shows "YearFromTime (MakeDate (MakeDay y m d) tm) = y \<and>
         MonthFromTime (MakeDate (MakeDay y m d) tm) = m \<and>
         DateFromTime (MakeDate (MakeDay y m d) tm) = d \<and>
         Day (MakeDate (MakeDay y m d) tm) = MakeDay y m d"
proof -
  let ?t = "MakeDate (MakeDay y m d) tm"
  let ?l = "leapDays y"
  have l: "?l = 0 \<or> ?l = 1" by (rule leapDays_cases)
  from monthStart_bounds [OF m l]
  have ms: "0 \<le> monthStart ?l m" "monthStart ?l (m + 1) \<le> 365 + ?l" by simp_all
  have dm: "d \<le> monthStart ?l (m + 1) - monthStart ?l m"
    using d(2) by (simp add: DaysInMonth_def)
  have md: "MakeDay y m d = DayFromYear y + monthStart ?l m + d - 1"
    using m by (simp add: MakeDay_def Let_def)
  have day: "Day ?t = MakeDay y m d" using tm by (rule Day_MakeDate)
  have lo: "DayFromYear y \<le> MakeDay y m d" using md ms(1) d(1) by simp
  have "MakeDay y m d < DayFromYear y + DaysInYear y"
    using md ms(2) dm by (simp add: leapDays_def)
  then have hi: "MakeDay y m d < DayFromYear (y + 1)" by (simp add: DayFromYear_Suc)
  have yr: "YearFromTime ?t = y"
    unfolding YearFromTime_def day using lo hi by (rule YearFromDay_unique)
  have dwy: "DayWithinYear ?t = monthStart ?l m + d - 1"
    by (simp only: DayWithinYear_def day yr) (simp add: md)
  have il: "InLeapYear ?t = ?l" by (simp add: InLeapYear_def yr)
  have "monthOfDay ?l (monthStart ?l m + d - 1) = m"
    using m l by (rule monthOfDay_unique) (use d(1) dm in simp_all)
  then have mo: "MonthFromTime ?t = m" by (simp add: MonthFromTime_def il dwy)
  have "DateFromTime ?t = d" by (simp add: DateFromTime_def il dwy mo)
  with yr mo day show ?thesis by simp
qed

lemma DaysInMonth_pos: "0 \<le> m \<Longrightarrow> m \<le> 11 \<Longrightarrow> 1 \<le> DaysInMonth y (m + 1)"
  using monthStart_bounds [of m "leapDays y"] leapDays_cases [of y]
  by (simp add: DaysInMonth_def)

lemma WeekDay_range: "0 \<le> WeekDay t \<and> WeekDay t \<le> 6"
  by (simp add: WeekDay_def)

lemma WeekDay_shift_back: "WeekDay (t - WeekDay t * msPerDay) = 0"
proof -
  define D where "D = Day t"
  have "Day (t + (- WeekDay t) * msPerDay) = Day t + (- WeekDay t)" by (rule Day_shift)
  then have e: "Day (t - WeekDay t * msPerDay) = D - (D + 4) mod 7"
    by (simp add: WeekDay_def D_def)
  have "(D - (D + 4) mod 7 + 4) mod 7 = 0" by presburger
  then show ?thesis unfolding WeekDay_def [of "t - WeekDay t * msPerDay"] e .
qed

lemma daysLoop_fixed:
  "length days \<le> 42 \<Longrightarrow> tz = fixedOffset c \<Longrightarrow>
   daysLoop tz days current =
     days @ map (\<lambda>i. current + int i * msPerDay) [0..<42 - length days]"
proof (induction tz days current rule: daysLoop.induct)
  case (1 tz days current)
  show ?case
  proof (cases "length days < 42")
    case True
    then obtain n where n: "42 - length days = Suc n" by (cases "42 - length days") auto
    then have n': "42 - length (days @ [current]) = n" by simp
    have "daysLoop tz days current =
            daysLoop tz (days @ [current]) (setDate tz current (getDate tz current + 1))"
      using True by (subst daysLoop.simps) simp
    also have "\<dots> = (days @ [current]) @
        map (\<lambda>i. (current + 1 * msPerDay) + int i * msPerDay) [0..<n]"
      using "1.IH" [OF True] True n' "1.prems"(2) by (simp add: setDate_shift)
    also have "\<dots> = days @ map (\<lambda>i. current + int i * msPerDay) [0..<Suc n]"
      by (simp add: upt_rec [of 0 "Suc n"] map_Suc_upt [symmetric] algebra_simps del: upt_Suc)
    finally show ?thesis by (simp only: n)
  next
    case False
    with "1.prems" have "length days = 42" by simp
    then show ?thesis by (subst daysLoop.simps) simp
  qed
qed

lemma daysLoop_eq:
  "length days \<le> 42 \<Longrightarrow>
   daysLoop (fixedOffset c) days current =
     days @ map (\<lambda>i. current + int i * msPerDay) [0..<42 - length days]"
  by (rule daysLoop_fixed) simp_all

subsection \<open>The month grid\<close>

lemma getDaysInMonth_eq:
  "getDaysInMonth (fixedOffset c) date =
     (let firstDay = newDateYMD (fixedOffset c) (getFullYear (fixedOffset c) date) (getMonth (fixedOffset c) date) 1
      in map (\<lambda>i. firstDay - getDay (fixedOffset c) firstDay * msPerDay + int i * msPerDay) [0..<42])"
proof -
  let ?f = "newDateYMD (fixedOffset c) (getFullYear (fixedOffset c) date) (getMonth (fixedOffset c) date) 1"
  have "setDate (fixedOffset c) ?f (getDate (fixedOffset c) ?f - getDay (fixedOffset c) ?f) = ?f - getDay (fixedOffset c) ?f * msPerDay"
    using setDate_shift [of c ?f "- getDay (fixedOffset c) ?f"] by simp
  then show ?thesis
    by (simp add: getDaysInMonth_def Let_def daysLoop_eq)
qed

lemma newDateYMD_local:
  "LocalTime (fixedOffset c) (newDateYMD (fixedOffset c) year month date) =
     MakeDate (MakeDay (if 0 \<le> year \<and> year \<le> 99 then 1900 + year else year) month date) 0"
  by (simp add: newDateYMD_def LocalTime_fixed UTC_fixed Let_def)

lemma getMonth_range: "0 \<le> getMonth tz t \<and> getMonth tz t \<le> 11"
  unfolding getMonth_def MonthFromTime_def by (rule monthOfDay_range)

text \<open>The grid of any anchor date in a zone of constant offset: 42 consecutive local
  midnights from a Sunday, at most six days before the day \<open>new Date(year, month, 1)\<close>.\<close>

lemma grid_shape:
  "(let days = getDaysInMonth (fixedOffset c) date;
        firstDay = newDateYMD (fixedOffset c) (getFullYear (fixedOffset c) date) (getMonth (fixedOffset c) date) 1
    in length days = 42 \<and>
       list_all (\<lambda>i. days ! i = hd days + int i * msPerDay \<and>
                     Day (LocalTime (fixedOffset c) (days ! i)) = Day (LocalTime (fixedOffset c) (hd days)) + int i \<and>
                     TimeWithinDay (LocalTime (fixedOffset c) (days ! i)) = 0) [0..<42] \<and>
       getDay (fixedOffset c) (hd days) = 0 \<and>
       hd days \<le> firstDay \<and> firstDay < hd days + 7 * msPerDay)"
proof -
  let ?f = "newDateYMD (fixedOffset c) (getFullYear (fixedOffset c) date) (getMonth (fixedOffset c) date) 1"
  let ?s = "?f - getDay (fixedOffset c) ?f * msPerDay"
  let ?days = "map (\<lambda>i. ?s + int i * msPerDay) [0..<42]"
  have eq: "getDaysInMonth (fixedOffset c) date = ?days"
    by (simp add: getDaysInMonth_eq Let_def)
  have hd: "hd ?days = ?s" by (simp add: upt_rec [of 0 42] del: upt_Suc)
  have nth: "?days ! i = ?s + int i * msPerDay" if "i < 42" for i
    using that by simp
  have mid: "TimeWithinDay (LocalTime (fixedOffset c) ?f) = 0"
    unfolding newDateYMD_local by (simp add: TimeWithinDay_def MakeDate_def)
  have l: "LocalTime (fixedOffset c) (?s + int i * msPerDay) =
             LocalTime (fixedOffset c) ?f + (int i - getDay (fixedOffset c) ?f) * msPerDay" for i
    by (simp add: LocalTime_fixed algebra_simps)
  have tw: "TimeWithinDay (LocalTime (fixedOffset c) (?s + int i * msPerDay)) = 0" for i
    using mid unfolding l by (simp add: TimeWithinDay_def)
  have dy: "Day (LocalTime (fixedOffset c) (?s + int i * msPerDay)) =
              Day (LocalTime (fixedOffset c) ?s) + int i" for i
    using Day_shift [of "LocalTime (fixedOffset c) ?s" "int i"] by (simp add: LocalTime_fixed algebra_simps)
  have sun: "getDay (fixedOffset c) ?s = 0"
    using WeekDay_shift_back [of "LocalTime (fixedOffset c) ?f"]
    by (simp add: getDay_def LocalTime_fixed algebra_simps)
  have w: "0 \<le> getDay (fixedOffset c) ?f \<and> getDay (fixedOffset c) ?f \<le> 6"
    unfolding getDay_def by (rule WeekDay_range)
  have le: "?s \<le> ?f" using w msPerDay_pos by simp
  have "getDay (fixedOffset c) ?f * msPerDay \<le> 6 * msPerDay" using w msPerDay_pos by simp
  then have lt: "?f < ?s + 7 * msPerDay" using msPerDay_pos by simp
  have all: "list_all (\<lambda>i. ?days ! i = hd ?days + int i * msPerDay \<and>
                     Day (LocalTime (fixedOffset c) (?days ! i)) = Day (LocalTime (fixedOffset c) (hd ?days)) + int i \<and>
                     TimeWithinDay (LocalTime (fixedOffset c) (?days ! i)) = 0) [0..<42]"
    unfolding list_all_iff hd
  proof
    fix i assume "i \<in> set [0..<42]"
    then have i: "i < 42" by simp
    show "?days ! i = ?s + int i * msPerDay \<and>
          Day (LocalTime (fixedOffset c) (?days ! i)) = Day (LocalTime (fixedOffset c) ?s) + int i \<and>
          TimeWithinDay (LocalTime (fixedOffset c) (?days ! i)) = 0"
      unfolding nth [OF i] using dy [of i] tw [of i] by simp
  qed
  show ?thesis
    unfolding Let_def eq using all sun le lt unfolding hd by simp
qed

text \<open>For a year outside 0 to 99, \<open>new Date(year, month, 1)\<close> is the first day of the anchor's
  month.\<close>

lemma firstDay_is_first:
  assumes "\<not> (0 \<le> getFullYear (fixedOffset c) date \<and> getFullYear (fixedOffset c) date \<le> 99)"
  shows "(let firstDay = newDateYMD (fixedOffset c) (getFullYear (fixedOffset c) date) (getMonth (fixedOffset c) date) 1
          in getFullYear (fixedOffset c) firstDay = getFullYear (fixedOffset c) date \<and>
             getMonth (fixedOffset c) firstDay = getMonth (fixedOffset c) date \<and>
             getDate (fixedOffset c) firstDay = 1)"
proof -
  let ?y = "getFullYear (fixedOffset c) date" and ?m = "getMonth (fixedOffset c) date"
  have m: "0 \<le> ?m" "?m \<le> 11" using getMonth_range [of "fixedOffset c" date] by simp_all
  have l: "LocalTime (fixedOffset c) (newDateYMD (fixedOffset c) ?y ?m 1) = MakeDate (MakeDay ?y ?m 1) 0"
    using assms by (auto simp add: newDateYMD_local)
  have "(1::int) \<le> 1" by simp
  from decompose_MakeDay [OF m this DaysInMonth_pos [OF m] order_refl msPerDay_pos, of ?y]
  show ?thesis
    unfolding Let_def getFullYear_def [of "fixedOffset c" "newDateYMD (fixedOffset c) ?y ?m 1"]
      getMonth_def [of "fixedOffset c" "newDateYMD (fixedOffset c) ?y ?m 1"] getDate_def [of "fixedOffset c" "newDateYMD (fixedOffset c) ?y ?m 1"] l
    by simp
qed

lemma replicate_eval:
  "replicate 1 c = [c]" "replicate 2 c = [c, c]" "replicate 3 c = [c, c, c]"
  "replicate 4 c = [c, c, c, c]" "replicate 5 c = [c, c, c, c, c]"
  by (simp_all add: eval_nat_numeral)

lemmas calendar_eval = replicate_eval msPerDay_def Day_def TimeWithinDay_def DaysInYear_def DayFromYear_def
  YearFromDay_def YearFromTime_def leapDays_def InLeapYear_def DayWithinYear_def monthStart_def
  monthOfDay_def MonthFromTime_def DateFromTime_def WeekDay_def MakeDay_def MakeDate_def
  LocalTime_fixed UTC_fixed getFullYear_def getMonth_def getDate_def getDay_def newDateYMD_def
  isoYear_def isoDate_def formatDate_def pad_def digits.simps digitChar_def Let_def

lemma hd_grid:
  "hd (getDaysInMonth (fixedOffset c) date) =
     (let firstDay = newDateYMD (fixedOffset c) (getFullYear (fixedOffset c) date) (getMonth (fixedOffset c) date) 1
      in firstDay - getDay (fixedOffset c) firstDay * msPerDay)"
  by (simp add: getDaysInMonth_eq Let_def upt_rec [of 0 42] del: upt_Suc)

lemma last_grid:
  "last (getDaysInMonth (fixedOffset c) date) = hd (getDaysInMonth (fixedOffset c) date) + 41 * msPerDay"
proof -
  have "last (map f [0..<42]) = f 41" for f :: "nat \<Rightarrow> int"
    by (simp add: last_map)
  moreover have "hd (map f [0..<42]) = f 0" for f :: "nat \<Rightarrow> int"
    by (simp add: upt_rec [of 0 42] del: upt_Suc)
  ultimately show ?thesis by (simp add: getDaysInMonth_eq Let_def)
qed


subsection \<open>Zero-padded numbers and their order\<close>

lemma digits_small: "n < 10 \<Longrightarrow> digits n = [digitChar n]"
  by (subst digits.simps) simp

lemma digits_large: "\<not> n < 10 \<Longrightarrow> digits n = digits (n div 10) @ [digitChar (n mod 10)]"
  by (subst digits.simps) simp

lemma pad_one: "n < 10 \<Longrightarrow> pad (Suc 0) n = [digitChar n]"
  by (simp add: pad_def digits_small)

lemma pad_Suc: "1 \<le> k \<Longrightarrow> pad (Suc k) n = pad k (n div 10) @ [digitChar (n mod 10)]"
proof (cases "n < 10")
  case True
  assume "1 \<le> k"
  then obtain j where "k = Suc j" by (cases k) auto
  with True show ?thesis
    by (simp add: pad_def digits_small replicate_append_same digitChar_def)
next
  case False
  then show ?thesis
    by (simp add: pad_def digits_large Suc_diff_le)
qed

lemma pad_props:
  "1 \<le> k \<Longrightarrow> n < 10 ^ k \<Longrightarrow>
   length (pad k n) = k \<and> list_all isDigit (pad k n) \<and> digitsVal (pad k n) = n"
proof (induction k arbitrary: n)
  case 0
  then show ?case by simp
next
  case (Suc k)
  show ?case
  proof (cases "k = 0")
    case True
    with Suc.prems have "n < 10" by simp
    then show ?thesis using True
      by (simp add: pad_one isDigit_digitChar digitsVal_def of_char_digitChar)
  next
    case False
    then have k: "1 \<le> k" by simp
    from Suc.prems have "n div 10 < 10 ^ k" by (simp add: less_mult_imp_div_less mult.commute)
    from Suc.IH [OF k this] show ?thesis
      by (simp add: pad_Suc [OF k] isDigit_digitChar digitsVal_snoc of_char_digitChar)
  qed
qed

lemma readDigits_pad:
  assumes "1 \<le> k" and "n < 10 ^ k"
  shows "readDigits k (pad k n @ r) = Some (n, r)"
  using pad_props [OF assms] by (simp add: readDigits_def)

lemma pad_length_ge: "k \<le> length (pad k n)"
  by (simp add: pad_def)

lemma pad_inj: "1 \<le> k \<Longrightarrow> m < 10 ^ k \<Longrightarrow> n < 10 ^ k \<Longrightarrow> pad k m = pad k n \<Longrightarrow> m = n"
  by (metis pad_props)

lemma lex_append_le:
  fixes xs ys :: "'a::linorder list"
  shows "length xs = length ys \<Longrightarrow> (xs @ u \<le> ys @ v) = (xs < ys \<or> (xs = ys \<and> u \<le> v))"
proof (induction xs ys rule: list_induct2)
  case Nil
  then show ?case by simp
next
  case (Cons x xs y ys)
  then show ?case by auto
qed

lemma digitChar_le: "a < 10 \<Longrightarrow> b < 10 \<Longrightarrow> (digitChar a \<le> digitChar b) = (a \<le> b)"
  by (simp add: less_eq_char_def of_char_digitChar)

lemma lex10:
  "b < 10 \<Longrightarrow> d < 10 \<Longrightarrow> (a < c \<or> (a = c \<and> b \<le> d)) = (10 * a + b \<le> 10 * c + (d::nat))"
  by auto

lemma digitChar_sing_le:
  "a < 10 \<Longrightarrow> b < 10 \<Longrightarrow> ([digitChar a] \<le> [digitChar b]) = (a \<le> b)"
  using digitChar_le [of a b] by (simp add: le_less)

lemma pad_le:
  "1 \<le> k \<Longrightarrow> m < 10 ^ k \<Longrightarrow> n < 10 ^ k \<Longrightarrow> (pad k m \<le> pad k n) = (m \<le> n)"
proof (induction k arbitrary: m n)
  case 0
  then show ?case by simp
next
  case (Suc k)
  show ?case
  proof (cases "k = 0")
    case True
    with Suc.prems have "m < 10" "n < 10" by simp_all
    then have "([digitChar m] \<le> [digitChar n]) = (m \<le> n)"
      by (rule digitChar_sing_le)
    with \<open>m < 10\<close> \<open>n < 10\<close> show ?thesis using True by (simp only: pad_one)
  next
    case False
    then have k: "1 \<le> k" by simp
    from Suc.prems have m: "m div 10 < 10 ^ k" and n: "n div 10 < 10 ^ k"
      by (simp_all add: less_mult_imp_div_less mult.commute)
    have len: "length (pad k (m div 10)) = length (pad k (n div 10))"
      using pad_props [OF k m] pad_props [OF k n] by simp
    have le: "(pad k (m div 10) \<le> pad k (n div 10)) = (m div 10 \<le> n div 10)"
      using k m n by (rule Suc.IH)
    have eq: "(pad k (m div 10) = pad k (n div 10)) = (m div 10 = n div 10)"
      using pad_inj [OF k m n] by auto
    have lt: "(pad k (m div 10) < pad k (n div 10)) = (m div 10 < n div 10)"
      using le eq by (auto simp add: less_le)
    have s: "([digitChar (m mod 10)] \<le> [digitChar (n mod 10)]) = (m mod 10 \<le> n mod 10)"
      by (rule digitChar_sing_le) simp_all
    have "(pad (Suc k) m \<le> pad (Suc k) n) =
          (m div 10 < n div 10 \<or> (m div 10 = n div 10 \<and> m mod 10 \<le> n mod 10))"
      by (simp only: pad_Suc [OF k] lex_append_le [OF len] lt eq s)
    also have "\<dots> = (10 * (m div 10) + m mod 10 \<le> 10 * (n div 10) + n mod 10)"
      by (rule lex10) simp_all
    also have "\<dots> = (m \<le> n)" by simp
    finally show ?thesis .
  qed
qed

lemma YearFromDay_mono: "d \<le> d' \<Longrightarrow> YearFromDay d \<le> YearFromDay d'"
proof (rule ccontr)
  assume le: "d \<le> d'" and "\<not> YearFromDay d \<le> YearFromDay d'"
  then have "YearFromDay d' < YearFromDay d" by simp
  from DayFromYear_less [OF this] YearFromDay_correct [of d] YearFromDay_correct [of d'] le
  show False by simp
qed

lemma monthOfDay_mono: "d \<le> d' \<Longrightarrow> monthOfDay l d \<le> monthOfDay l d'"
  by (simp add: monthOfDay_def)

subsection \<open>Date keys\<close>

lemma hd_pad_isDigit: "1 \<le> k \<Longrightarrow> n < 10 ^ k \<Longrightarrow> \<exists>c r. pad k n = c # r \<and> isDigit c"
proof -
  assume k: "1 \<le> k" and n: "n < 10 ^ k"
  from pad_props [OF k n] have l: "length (pad k n) = k" and a: "list_all isDigit (pad k n)"
    by simp_all
  from l k obtain c r where "pad k n = c # r" by (cases "pad k n") auto
  with a show ?thesis by auto
qed

lemma readYear_isoYear:
  assumes "- 999999 \<le> y" and "y \<le> 999999"
  shows "readYear (isoYear y @ r) = Some (y, r)"
proof (cases "0 \<le> y \<and> y \<le> 9999")
  case True
  then have n: "nat y < 10 ^ 4" by auto
  from hd_pad_isDigit [OF _ n] obtain c r' where p: "pad 4 (nat y) = c # r'" and c: "isDigit c"
    by auto
  from c have ne: "c \<noteq> CHR ''+''" "c \<noteq> CHR ''-''" by (auto simp add: isDigit_def)
  have "readDigits 4 (pad 4 (nat y) @ r) = Some (nat y, r)"
    by (rule readDigits_pad) (use n in simp_all)
  then have "readDigits 4 (c # r' @ r) = Some (nat y, r)" by (simp add: p)
  with True ne show ?thesis by (simp add: readYear_def isoYear_def p)
next
  case False
  from assms have n: "nat \<bar>y\<bar> < 10 ^ 6" by auto
  have rd: "readDigits 6 (pad 6 (nat \<bar>y\<bar>) @ r) = Some (nat \<bar>y\<bar>, r)"
    by (rule readDigits_pad) (use n in simp_all)
  show ?thesis
  proof (cases "y < 0")
    case True
    then show ?thesis using False rd by (simp add: readYear_def isoYear_def)
  next
    case False
    with \<open>\<not> (0 \<le> y \<and> y \<le> 9999)\<close> show ?thesis using rd
      by (simp add: readYear_def isoYear_def)
  qed
qed

lemma DaysInMonth_le_31: "1 \<le> m \<Longrightarrow> m \<le> 12 \<Longrightarrow> DaysInMonth y m \<le> 31"
proof -
  assume "1 \<le> m" "m \<le> 12"
  then have "m = 1 \<or> m = 2 \<or> m = 3 \<or> m = 4 \<or> m = 5 \<or> m = 6 \<or>
      m = 7 \<or> m = 8 \<or> m = 9 \<or> m = 10 \<or> m = 11 \<or> m = 12" by arith
  then show ?thesis using leapDays_cases [of y]
    by (auto simp add: DaysInMonth_def monthStart_def)
qed

lemma Date_parse_isoDate:
  assumes y: "- 999999 \<le> y" "y \<le> 999999"
    and m: "1 \<le> m" "m \<le> 12"
    and d: "1 \<le> d" "d \<le> DaysInMonth y m"
  shows "Date_parse (isoDate y m d) = Some (MakeDate (MakeDay y (m - 1) d) 0)"
proof -
  from d DaysInMonth_le_31 [OF m, of y] have d31: "d \<le> 31" by simp
  have 1: "readYear (isoYear y @ ''-'' @ pad 2 (nat m) @ ''-'' @ pad 2 (nat d)) =
             Some (y, ''-'' @ pad 2 (nat m) @ ''-'' @ pad 2 (nat d))"
    using y by (rule readYear_isoYear)
  have 2: "readDigits 2 (pad 2 (nat m) @ ''-'' @ pad 2 (nat d)) = Some (nat m, ''-'' @ pad 2 (nat d))"
    by (rule readDigits_pad) (use m in auto)
  have 3: "readDigits 2 (pad 2 (nat d) @ []) = Some (nat d, [])"
    by (rule readDigits_pad) (use d31 d in auto)
  have nm: "nat m \<le> 12" "1 \<le> nat m" "1 \<le> nat d" using m d by auto
  show ?thesis
    unfolding Date_parse_def isoDate_def 1
    using 2 3 m d nm by (simp add: readSep_def)
qed

lemma DayWithinYear_range:
  "0 \<le> DayWithinYear t \<and> DayWithinYear t < 365 + InLeapYear t"
  using YearFromDay_correct [of "Day t"] DayFromYear_Suc [of "YearFromTime t"]
  by (simp add: DayWithinYear_def InLeapYear_def leapDays_def YearFromTime_def)

lemma DateFromTime_range:
  "1 \<le> DateFromTime t \<and> DateFromTime t \<le> DaysInMonth (YearFromTime t) (MonthFromTime t + 1)"
proof -
  have l: "InLeapYear t = 0 \<or> InLeapYear t = 1"
    unfolding InLeapYear_def by (rule leapDays_cases)
  from DayWithinYear_range [of t]
  have "monthStart (InLeapYear t) (MonthFromTime t) \<le> DayWithinYear t \<and>
        DayWithinYear t < monthStart (InLeapYear t) (MonthFromTime t + 1)"
    unfolding MonthFromTime_def using l by (intro monthOfDay_correct) simp_all
  then show ?thesis
    by (simp add: DateFromTime_def DaysInMonth_def InLeapYear_def)
qed

lemma MonthFromTime_range: "0 \<le> MonthFromTime t \<and> MonthFromTime t \<le> 11"
  unfolding MonthFromTime_def by (rule monthOfDay_range)

lemma Date_parse_formatDate:
  assumes "- 999999 \<le> YearFromTime t" and "YearFromTime t \<le> 999999"
  shows "Date_parse (formatDate t) = Some (Day t * msPerDay)"
proof -
  have m: "1 \<le> MonthFromTime t + 1" "MonthFromTime t + 1 \<le> 12"
    using MonthFromTime_range [of t] by simp_all
  have d: "1 \<le> DateFromTime t" "DateFromTime t \<le> DaysInMonth (YearFromTime t) (MonthFromTime t + 1)"
    using DateFromTime_range [of t] by simp_all
  from Date_parse_isoDate [OF assms m d]
  show ?thesis by (simp add: formatDate_def MakeDay_decompose MakeDate_def)
qed

lemma Day_mono: "t \<le> t' \<Longrightarrow> Day t \<le> Day t'"
  unfolding Day_def using msPerDay_pos by (intro zdiv_mono1) simp_all

lemma lex_days:
  "(Day t1 \<le> Day t2) =
     (YearFromTime t1 < YearFromTime t2 \<or>
      (YearFromTime t1 = YearFromTime t2 \<and>
       (MonthFromTime t1 < MonthFromTime t2 \<or>
        (MonthFromTime t1 = MonthFromTime t2 \<and> DateFromTime t1 \<le> DateFromTime t2))))"
  (is "?L = ?R")
proof -
  have fwd: "YearFromTime a < YearFromTime b \<or>
      (YearFromTime a = YearFromTime b \<and>
       (MonthFromTime a < MonthFromTime b \<or>
        (MonthFromTime a = MonthFromTime b \<and> DateFromTime a \<le> DateFromTime b)))"
    if le: "Day a \<le> Day b" for a b
  proof (cases "YearFromTime a = YearFromTime b")
    case False
    moreover from le have "YearFromTime a \<le> YearFromTime b"
      unfolding YearFromTime_def by (rule YearFromDay_mono)
    ultimately show ?thesis by simp
  next
    case True
    then have l: "InLeapYear a = InLeapYear b" by (simp add: InLeapYear_def)
    from le True have w: "DayWithinYear a \<le> DayWithinYear b" by (simp add: DayWithinYear_def)
    then have "MonthFromTime a \<le> MonthFromTime b"
      unfolding MonthFromTime_def l by (rule monthOfDay_mono)
    then show ?thesis using True w l by (auto simp add: DateFromTime_def)
  qed
  show ?thesis
  proof
    assume ?L then show ?R by (rule fwd)
  next
    assume r: ?R
    show ?L
    proof (rule ccontr)
      assume "\<not> ?L"
      then have lt: "Day t2 < Day t1" by simp
      then have "Day t2 \<le> Day t1" by simp
      from fwd [OF this] r
      have "YearFromTime t1 = YearFromTime t2 \<and> MonthFromTime t1 = MonthFromTime t2 \<and>
            DateFromTime t1 = DateFromTime t2" by auto
      then have "Day t1 = Day t2"
        using MakeDay_decompose [of t1] MakeDay_decompose [of t2] by simp
      with lt show False by simp
    qed
  qed
qed

lemma isoDate_le:
  assumes y: "0 \<le> y1" "y1 \<le> 9999" "0 \<le> y2" "y2 \<le> 9999"
    and m: "1 \<le> m1" "m1 \<le> 12" "1 \<le> m2" "m2 \<le> 12"
    and d: "1 \<le> d1" "d1 \<le> 31" "1 \<le> d2" "d2 \<le> 31"
  shows "(isoDate y1 m1 d1 \<le> isoDate y2 m2 d2) =
         (y1 < y2 \<or> (y1 = y2 \<and> (m1 < m2 \<or> (m1 = m2 \<and> d1 \<le> d2))))"
proof -
  have ny: "nat y1 < 10 ^ 4" "nat y2 < 10 ^ 4" using y by auto
  have nm: "nat m1 < 10 ^ 2" "nat m2 < 10 ^ 2" using m by auto
  have nd: "nat d1 < 10 ^ 2" "nat d2 < 10 ^ 2" using d by auto
  have ly: "length (pad 4 (nat y1)) = length (pad 4 (nat y2))"
    using pad_props [OF _ ny(1)] pad_props [OF _ ny(2)] by simp
  have lm: "length (pad 2 (nat m1)) = length (pad 2 (nat m2))"
    using pad_props [OF _ nm(1)] pad_props [OF _ nm(2)] by simp
  have ld: "length (pad 2 (nat d1)) = length (pad 2 (nat d2))"
    using pad_props [OF _ nd(1)] pad_props [OF _ nd(2)] by simp
  have sep: "length ''-'' = length ''-''" by simp
  have yle: "(pad 4 (nat y1) \<le> pad 4 (nat y2)) = (y1 \<le> y2)"
    using pad_le [OF _ ny] y by auto
  have yeq: "(pad 4 (nat y1) = pad 4 (nat y2)) = (y1 = y2)"
    using pad_inj [OF _ ny] y by auto
  have mle: "(pad 2 (nat m1) \<le> pad 2 (nat m2)) = (m1 \<le> m2)"
    using pad_le [OF _ nm] m by auto
  have meq: "(pad 2 (nat m1) = pad 2 (nat m2)) = (m1 = m2)"
    using pad_inj [OF _ nm] m by auto
  have dle: "(pad 2 (nat d1) \<le> pad 2 (nat d2)) = (d1 \<le> d2)"
    using pad_le [OF _ nd] d by auto
  have dd: "(pad 2 (nat d1) @ [] \<le> pad 2 (nat d2) @ []) =
            (pad 2 (nat d1) < pad 2 (nat d2) \<or> pad 2 (nat d1) = pad 2 (nat d2) \<and> [] \<le> ([]::string))"
    by (rule lex_append_le [OF ld])
  have "(isoDate y1 m1 d1 \<le> isoDate y2 m2 d2) =
        (pad 4 (nat y1) < pad 4 (nat y2) \<or>
         (pad 4 (nat y1) = pad 4 (nat y2) \<and>
          (pad 2 (nat m1) < pad 2 (nat m2) \<or>
           (pad 2 (nat m1) = pad 2 (nat m2) \<and> pad 2 (nat d1) \<le> pad 2 (nat d2)))))"
    using y unfolding isoDate_def isoYear_def
    by (simp only: if_True simp_thms lex_append_le [OF ly] lex_append_le [OF lm]
          lex_append_le [OF sep]) auto
  then show ?thesis
    using yle yeq mle meq dle by (auto simp add: less_le)
qed

lemma DateFromTime_le_31: "1 \<le> DateFromTime t \<and> DateFromTime t \<le> 31"
proof -
  have "1 \<le> MonthFromTime t + 1" "MonthFromTime t + 1 \<le> 12"
    using MonthFromTime_range [of t] by simp_all
  from DaysInMonth_le_31 [OF this, of "YearFromTime t"] DateFromTime_range [of t]
  show ?thesis by simp
qed

lemma formatDate_le:
  assumes "0 \<le> YearFromTime t1" "YearFromTime t1 \<le> 9999"
    and "0 \<le> YearFromTime t2" "YearFromTime t2 \<le> 9999"
  shows "(formatDate t1 \<le> formatDate t2) = (Day t1 \<le> Day t2)"
proof -
  have m: "1 \<le> MonthFromTime t1 + 1" "MonthFromTime t1 + 1 \<le> 12"
      "1 \<le> MonthFromTime t2 + 1" "MonthFromTime t2 + 1 \<le> 12"
    using MonthFromTime_range [of t1] MonthFromTime_range [of t2] by simp_all
  have d: "1 \<le> DateFromTime t1" "DateFromTime t1 \<le> 31"
      "1 \<le> DateFromTime t2" "DateFromTime t2 \<le> 31"
    using DateFromTime_le_31 [of t1] DateFromTime_le_31 [of t2] by simp_all
  show ?thesis
    unfolding formatDate_def isoDate_le [OF assms m d] lex_days [of t1 t2] by auto
qed

lemma isoYear_length: "length (isoYear y) = 4 \<Longrightarrow> 0 \<le> y \<and> y \<le> 9999"
proof (rule ccontr)
  assume l: "length (isoYear y) = 4" and n: "\<not> (0 \<le> y \<and> y \<le> 9999)"
  from n have "length (isoYear y) = Suc (length (pad 6 (nat \<bar>y\<bar>)))"
    by (auto simp add: isoYear_def)
  with pad_length_ge [of 6 "nat \<bar>y\<bar>"] l show False by simp
qed

lemma formatDate_length: "length (formatDate t) = 10 \<Longrightarrow> 0 \<le> YearFromTime t \<and> YearFromTime t \<le> 9999"
proof -
  assume l: "length (formatDate t) = 10"
  have "nat (MonthFromTime t + 1) < 10 ^ 2" using MonthFromTime_range [of t] by auto
  from pad_props [OF _ this] have lm: "length (pad 2 (nat (MonthFromTime t + 1))) = 2" by simp
  have "nat (DateFromTime t) < 10 ^ 2" using DateFromTime_le_31 [of t] by auto
  from pad_props [OF _ this] have ld: "length (pad 2 (nat (DateFromTime t))) = 2" by simp
  from l lm ld have "length (isoYear (YearFromTime t)) = 4"
    by (simp add: formatDate_def isoDate_def)
  then show ?thesis by (rule isoYear_length)
qed

lemma Date_parse_midnight: "Date_parse s = Some t \<Longrightarrow> t = Day t * msPerDay"
proof -
  assume "Date_parse s = Some t"
  then obtain dy where "t = MakeDate dy 0"
    by (auto simp add: Date_parse_def split: option.splits if_splits)
  then show ?thesis using Day_MakeDate [of 0 dy] msPerDay_pos by (simp add: MakeDate_def)
qed

lemma digitChar_of_char: "isDigit c \<Longrightarrow> digitChar (of_char c - 48) = c"
proof -
  assume d: "isDigit c"
  then have v: "(of_char c :: nat) - 48 < 10" by (auto simp add: isDigit_def)
  have "(of_char (digitChar (of_char c - 48)) :: nat) = of_char c"
    using of_char_digitChar [OF v] d by (simp add: isDigit_def)
  then show ?thesis by (rule of_char_eqI)
qed

lemma pad_digitsVal:
  "list_all isDigit xs \<Longrightarrow> xs \<noteq> [] \<Longrightarrow>
   pad (length xs) (digitsVal xs) = xs \<and> digitsVal xs < 10 ^ length xs"
proof (induction xs rule: rev_induct)
  case Nil
  then show ?case by simp
next
  case (snoc c ys)
  from snoc.prems have c: "isDigit c" and ys: "list_all isDigit ys" by simp_all
  define v where "v = (of_char c :: nat) - 48"
  have v: "v < 10" using c by (auto simp add: v_def isDigit_def)
  have dc: "digitChar v = c" unfolding v_def using c by (rule digitChar_of_char)
  show ?case
  proof (cases "ys = []")
    case True
    then show ?thesis using v dc
      by (simp add: digitsVal_def pad_one v_def [symmetric])
  next
    case False
    from snoc.IH [OF ys False]
    have ih: "pad (length ys) (digitsVal ys) = ys" "digitsVal ys < 10 ^ length ys" by simp_all
    have k: "1 \<le> length ys" using False by (cases ys) simp_all
    have val: "digitsVal (ys @ [c]) = 10 * digitsVal ys + v"
      by (simp add: digitsVal_snoc v_def)
    have "pad (Suc (length ys)) (10 * digitsVal ys + v) =
            pad (length ys) ((10 * digitsVal ys + v) div 10) @
              [digitChar ((10 * digitsVal ys + v) mod 10)]"
      using k by (rule pad_Suc)
    also have "\<dots> = ys @ [c]" using v ih(1) dc by simp
    finally have 1: "pad (length (ys @ [c])) (digitsVal (ys @ [c])) = ys @ [c]"
      by (simp add: val)
    have "10 * digitsVal ys + v < 10 * 10 ^ length ys" using ih(2) v by simp
    then have 2: "digitsVal (ys @ [c]) < 10 ^ length (ys @ [c])" by (simp add: val)
    from 1 2 show ?thesis by simp
  qed
qed

lemma readDigits_D:
  assumes "readDigits k s = Some (n, r)" and "1 \<le> k"
  shows "s = pad k n @ r \<and> n < 10 ^ k"
proof -
  from assms(1) have l: "k \<le> length s" and d: "list_all isDigit (take k s)"
    and n: "n = digitsVal (take k s)" and r: "r = drop k s"
    by (auto simp add: readDigits_def split: if_splits)
  have len: "length (take k s) = k" using l by simp
  then have "take k s \<noteq> []" using assms(2) by auto
  from pad_digitsVal [OF d this] have "pad k n = take k s" "n < 10 ^ k"
    unfolding len n by simp_all
  then show ?thesis using r by simp
qed

lemma readSep_D: "readSep s = Some r \<Longrightarrow> s = ''-'' @ r"
  by (auto simp add: readSep_def split: list.splits if_splits)

lemma readYear_D:
  assumes "readYear s = Some (y, r)"
  shows "(0 \<le> y \<and> y \<le> 9999 \<and> s = pad 4 (nat y) @ r) \<or> length s = 7 + length r"
proof (cases s)
  case Nil
  with assms show ?thesis by (simp add: readYear_def)
next
  case (Cons c t)
  show ?thesis
  proof (cases "c = CHR ''+'' \<or> c = CHR ''-''")
    case True
    with assms Cons obtain n where "readDigits 6 t = Some (n, r)"
      by (auto simp add: readYear_def split: option.splits if_splits)
    from readDigits_D [OF this] have "t = pad 6 n @ r" "n < 10 ^ 6" by simp_all
    moreover from pad_props [OF _ \<open>n < 10 ^ 6\<close>] have "length (pad 6 n) = 6" by simp
    ultimately have "length s = 7 + length r" using Cons by simp
    then show ?thesis by simp
  next
    case False
    with assms Cons obtain n where rd: "readDigits 4 s = Some (n, r)" and y: "y = int n"
      by (auto simp add: readYear_def split: option.splits if_splits)
    from readDigits_D [OF rd] have "s = pad 4 n @ r" "n < 10 ^ 4" by simp_all
    with y show ?thesis by auto
  qed
qed

text \<open>A string of ten characters that reads as a date is that date's key.\<close>

lemma formatDate_Date_parse:
  assumes p: "Date_parse s = Some t" and l: "length s = 10"
  shows "formatDate t = s"
proof -
  from p obtain y s1 s2 m s3 s4 d where
    ry: "readYear s = Some (y, s1)" and r1: "readSep s1 = Some s2"
    and rm: "readDigits 2 s2 = Some (m, s3)" and r2: "readSep s3 = Some s4"
    and rd: "readDigits 2 s4 = Some (d, [])"
    and v: "1 \<le> m" "m \<le> 12" "1 \<le> d" "int d \<le> DaysInMonth y (int m)"
    and t: "t = MakeDate (MakeDay y (int m - 1) (int d)) 0"
    by (auto simp add: Date_parse_def split: option.splits if_splits)
  from readDigits_D [OF rd] have s4: "s4 = pad 2 d" and d100: "d < 10 ^ 2" by simp_all
  from readSep_D [OF r2] have s3: "s3 = ''-'' @ s4" .
  from readDigits_D [OF rm] have s2: "s2 = pad 2 m @ s3" and m100: "m < 10 ^ 2" by simp_all
  from readSep_D [OF r1] have s1: "s1 = ''-'' @ s2" .
  have l1: "length s1 = 6"
    using pad_props [OF _ d100] pad_props [OF _ m100] by (simp add: s1 s2 s3 s4)
  from readYear_D [OF ry] l l1 have y: "0 \<le> y" "y \<le> 9999" and s: "s = pad 4 (nat y) @ s1"
    by auto
  have m': "0 \<le> int m - 1" "int m - 1 \<le> 11" using v by simp_all
  have d': "1 \<le> int d" "int d \<le> DaysInMonth y (int m - 1 + 1)" using v by simp_all
  from decompose_MakeDay [OF m' d' order_refl msPerDay_pos]
  have "YearFromTime t = y" "MonthFromTime t = int m - 1" "DateFromTime t = int d"
    unfolding t by simp_all
  then have "formatDate t = isoDate y (int m) (int d)" by (simp add: formatDate_def)
  also have "\<dots> = s" using y by (simp add: isoDate_def isoYear_def s s1 s2 s3 s4)
  finally show ?thesis .
qed

lemma isDateKey_D:
  assumes "isDateKey s"
  obtains t where "Date_parse s = Some t" and "formatDate t = s"
    and "0 \<le> YearFromTime t" and "YearFromTime t \<le> 9999" and "t = Day t * msPerDay"
proof -
  from assms obtain t where p: "Date_parse s = Some t" and l: "length s = 10"
    by (auto simp add: isDateKey_def)
  from p l have f: "formatDate t = s" by (rule formatDate_Date_parse)
  from l f have "length (formatDate t) = 10" by simp
  from formatDate_length [OF this] Date_parse_midnight [OF p] p f that show ?thesis by blast
qed


lemma key_le:
  assumes "isDateKey a" and "isDateKey b"
    and "Date_parse a = Some ta" and "Date_parse b = Some tb"
  shows "(a \<le> b) = (ta \<le> tb)"
proof -
  from assms(1,3) obtain
    fa: "formatDate ta = a" and ya: "0 \<le> YearFromTime ta" "YearFromTime ta \<le> 9999"
    and ma: "ta = Day ta * msPerDay"
    by (auto elim: isDateKey_D)
  from assms(2,4) obtain
    fb: "formatDate tb = b" and yb: "0 \<le> YearFromTime tb" "YearFromTime tb \<le> 9999"
    and mb: "tb = Day tb * msPerDay"
    by (auto elim: isDateKey_D)
  have "(a \<le> b) = (Day ta \<le> Day tb)"
    using formatDate_le [OF ya yb] by (simp add: fa fb)
  also have "\<dots> = (Day ta * msPerDay \<le> Day tb * msPerDay)"
    using msPerDay_pos by simp
  also have "\<dots> = (ta \<le> tb)" using ma mb by simp
  finally show ?thesis .
qed

lemma key_day_bounds:
  assumes "0 \<le> YearFromTime t" and "YearFromTime t \<le> 9999"
  shows "- 719528 \<le> Day t \<and> Day t < 2932897"
proof -
  have "DayFromYear 0 \<le> DayFromYear (YearFromTime t)"
    using assms(1) by (rule DayFromYear_mono)
  moreover have "DayFromYear (YearFromTime t + 1) \<le> DayFromYear 10000"
    using assms(2) by (intro DayFromYear_mono) simp
  moreover have "DayFromYear 0 = - 719528" "DayFromYear 10000 = 2932897"
    by (simp_all add: DayFromYear_def)
  ultimately show ?thesis
    using YearFromDay_correct [of "Day t"] by (simp add: YearFromTime_def)
qed

lemma YearFromTime_printable:
  assumes "- 4371953 \<le> Day t" and "Day t \<le> 6585322"
  shows "- 999999 \<le> YearFromTime t \<and> YearFromTime t \<le> 999999"
proof -
  have "YearFromDay (- 4371953) \<le> YearFromTime t"
    unfolding YearFromTime_def using assms(1) by (rule YearFromDay_mono)
  moreover have "YearFromTime t \<le> YearFromDay 6585322"
    unfolding YearFromTime_def using assms(2) by (rule YearFromDay_mono)
  moreover have "YearFromDay (- 4371953) = - 10000" "YearFromDay 6585322 = 20000"
    by (simp_all add: YearFromDay_def DayFromYear_def Let_def)
  ultimately show ?thesis by simp
qed

subsection \<open>Fresh identifiers\<close>

lemma fresh_id:
  "list_all (\<lambda>t. \<exists>n. n \<noteq> now \<and> t_id t = numToString n) ts \<Longrightarrow>
   numToString now \<notin> set (map t_id ts)"
proof
  assume a: "list_all (\<lambda>t. \<exists>n. n \<noteq> now \<and> t_id t = numToString n) ts"
    and b: "numToString now \<in> set (map t_id ts)"
  from b obtain t where t: "t \<in> set ts" "t_id t = numToString now" by auto
  from a t(1) obtain n where n: "n \<noteq> now" "t_id t = numToString n"
    by (auto simp add: list_all_iff)
  from t(2) n(2) have "numToString now = numToString n" by simp
  then have "now = n" by (rule numToString_inj)
  with n(1) show False by simp
qed

subsection \<open>Task gestures\<close>

lemma handleTaskDrag_tasks: "handleTaskDrag d s = Inr s' \<Longrightarrow> tasks s' = tasks s"
  by (auto simp add: handleTaskDrag_def Let_def split: if_splits option.splits)

lemma onMouseMove_tasks: "tasks (onMouseMove d s) = tasks s"
  by (auto simp add: onMouseMove_def handleTaskDrag_tasks split: sum.splits)

lemma dragOver_tasks: "tasks (dragOver ds s) = tasks s"
  by (induction ds arbitrary: s) (simp_all add: onMouseMove_tasks)

lemma resizeStart_move:
  assumes "Resizing RStart tid ps pe s"
    and "find (\<lambda>t. t_id t = tid) (tasks s) = Some task"
    and "pe = t_endDate task"
  shows "handleTaskDrag d s =
           Inr (case d of None \<Rightarrow> s
                | Some td \<Rightarrow> if td \<noteq> [] \<and> tid \<noteq> [] \<and> td \<le> pe
                             then s\<lparr>dragState := (dragState s)\<lparr>d_startDate := Some td\<rparr>\<rparr> else s)"
  using assms by (auto simp add: handleTaskDrag_def Resizing_def Let_def split: option.splits)

lemma resizeEnd_move:
  assumes "Resizing REnd tid ps pe s"
    and "find (\<lambda>t. t_id t = tid) (tasks s) = Some task"
    and "ps = t_startDate task"
  shows "handleTaskDrag d s =
           Inr (case d of None \<Rightarrow> s
                | Some td \<Rightarrow> if td \<noteq> [] \<and> tid \<noteq> [] \<and> td \<ge> ps
                             then s\<lparr>dragState := (dragState s)\<lparr>d_endDate := Some td\<rparr>\<rparr> else s)"
  using assms by (auto simp add: handleTaskDrag_def Resizing_def Let_def split: option.splits)

lemma resizeStart_step:
  assumes "Resizing RStart tid ps pe s"
    and "find (\<lambda>t. t_id t = tid) (tasks s) = Some task"
    and "pe = t_endDate task"
  shows "\<exists>ps'. Resizing RStart tid ps' pe (onMouseMove d s) \<and>
               (ps' = ps \<or> (ps' \<noteq> [] \<and> ps' \<le> pe))"
  using assms(1) unfolding onMouseMove_def resizeStart_move [OF assms(1-3)]
  by (auto simp add: Resizing_def split: option.splits)

lemma resizeEnd_step:
  assumes "Resizing REnd tid ps pe s"
    and "find (\<lambda>t. t_id t = tid) (tasks s) = Some task"
    and "ps = t_startDate task"
  shows "\<exists>pe'. Resizing REnd tid ps pe' (onMouseMove d s) \<and>
               (pe' = pe \<or> (pe' \<noteq> [] \<and> ps \<le> pe'))"
  using assms(1) unfolding onMouseMove_def resizeEnd_move [OF assms(1-3)]
  by (auto simp add: Resizing_def split: option.splits)

lemma resizeStart_dragOver:
  assumes "find (\<lambda>t. t_id t = tid) (tasks s) = Some task"
    and "pe = t_endDate task"
  shows "Resizing RStart tid ps pe s \<Longrightarrow>
         \<exists>ps'. Resizing RStart tid ps' pe (dragOver ds s) \<and>
               (ps' = ps \<or> (ps' \<noteq> [] \<and> ps' \<le> pe))"
  using assms(1)
proof (induction ds arbitrary: s ps)
  case Nil
  then show ?case by auto
next
  case (Cons d ds)
  from resizeStart_step [OF Cons.prems(1) Cons.prems(2) assms(2)]
  obtain p1 where 1: "Resizing RStart tid p1 pe (onMouseMove d s)"
    and 2: "p1 = ps \<or> (p1 \<noteq> [] \<and> p1 \<le> pe)"
    by blast
  have 3: "find (\<lambda>t. t_id t = tid) (tasks (onMouseMove d s)) = Some task"
    using Cons.prems(2) by (simp add: onMouseMove_tasks)
  from Cons.IH [OF 1 3] obtain p2 where "Resizing RStart tid p2 pe (dragOver ds (onMouseMove d s))"
    and "p2 = p1 \<or> (p2 \<noteq> [] \<and> p2 \<le> pe)" by blast
  with 2 show ?case by auto
qed

lemma resizeEnd_dragOver:
  assumes "find (\<lambda>t. t_id t = tid) (tasks s) = Some task"
    and "ps = t_startDate task"
  shows "Resizing REnd tid ps pe s \<Longrightarrow>
         \<exists>pe'. Resizing REnd tid ps pe' (dragOver ds s) \<and>
               (pe' = pe \<or> (pe' \<noteq> [] \<and> ps \<le> pe'))"
  using assms(1)
proof (induction ds arbitrary: s pe)
  case Nil
  then show ?case by auto
next
  case (Cons d ds)
  from resizeEnd_step [OF Cons.prems(1) Cons.prems(2) assms(2)]
  obtain p1 where 1: "Resizing REnd tid ps p1 (onMouseMove d s)"
    and 2: "p1 = pe \<or> (p1 \<noteq> [] \<and> ps \<le> p1)"
    by blast
  have 3: "find (\<lambda>t. t_id t = tid) (tasks (onMouseMove d s)) = Some task"
    using Cons.prems(2) by (simp add: onMouseMove_tasks)
  from Cons.IH [OF 1 3] obtain p2 where "Resizing REnd tid ps p2 (dragOver ds (onMouseMove d s))"
    and "p2 = p1 \<or> (p2 \<noteq> [] \<and> ps \<le> p2)" by blast
  with 2 show ?case by auto
qed

lemma press_start: "clientX - left < 10 \<Longrightarrow>
  Resizing RStart tid (t_startDate task) (t_endDate task)
    (handleTaskMouseDown clientX left width tid task s)"
  by (simp add: handleTaskMouseDown_def Resizing_def)

lemma press_end: "\<not> clientX - left < 10 \<Longrightarrow> clientX - left > width - 10 \<Longrightarrow>
  Resizing REnd tid (t_startDate task) (t_endDate task)
    (handleTaskMouseDown clientX left width tid task s)"
  by (simp add: handleTaskMouseDown_def Resizing_def)

lemma press_move: "\<not> clientX - left < 10 \<Longrightarrow> \<not> clientX - left > width - 10 \<Longrightarrow>
  Moving tid (t_startDate task) (t_endDate task)
    (handleTaskMouseDown clientX left width tid task s)"
  by (simp add: handleTaskMouseDown_def Moving_def)

lemma press_tasks: "tasks (handleTaskMouseDown clientX left width tid task s) = tasks s"
  by (simp add: handleTaskMouseDown_def Let_def)

lemma map_id_on: "(\<And>x. x \<in> set xs \<Longrightarrow> f x = x) \<Longrightarrow> map f xs = xs"
  by (induction xs) auto

lemma includesStr_sublist: "includesStr s t = sublist t s"
  by (induction s) (simp_all add: sublist_Cons_right)


lemma createTask_ids:
  "list_all (\<lambda>t. t_id t \<noteq> []) (tasks s) \<Longrightarrow>
   list_all (\<lambda>t. t_id t \<noteq> []) (tasks (createTask now s))"
  by (simp add: createTask_def Let_def numToString_def digits_nonempty)

lemma moving_move:
  assumes "Moving tid ps pe s"
    and "find (\<lambda>t. t_id t = tid) (tasks s) = Some task"
    and "tid \<noteq> []" and "td \<noteq> []"
  shows "handleTaskDrag (Some td) s =
           (case newEndDate task td of
              None \<Rightarrow> Inl RangeError
            | Some e \<Rightarrow> Inr (s\<lparr>dragState := (dragState s)\<lparr>d_startDate := Some td,
                                  d_endDate := Some (formatDate e)\<rparr>\<rparr>))"
  using assms by (auto simp add: handleTaskDrag_def Moving_def Let_def split: option.splits)

lemma isDateKey_nonempty: "isDateKey s \<Longrightarrow> s \<noteq> []"
  by (auto simp add: isDateKey_def)

text \<open>The end date a move computes from date keys: the key's day plus the task's duration,
  printed and read back unchanged.\<close>

lemma move_end:
  assumes ks: "isDateKey (t_startDate task)" and ke: "isDateKey (t_endDate task)"
    and kd: "isDateKey d"
  obtains a b c where "Date_parse (t_startDate task) = Some a"
    and "Date_parse (t_endDate task) = Some b" and "Date_parse d = Some c"
    and "taskDuration task = Some (b - a)"
    and "newEndDate task d = Some (c + (b - a))"
    and "b - a = (Day b - Day a) * msPerDay"
    and "Date_parse (formatDate (c + (b - a))) = Some (c + (b - a))"
    and "Day (c + (b - a)) = Day c + (Day b - Day a)"
    and "formatDate c = d" and "0 \<le> YearFromTime c" and "YearFromTime c \<le> 9999"
    and "(t_startDate task \<le> t_endDate task) = (a \<le> b)"
proof -
  from ks obtain a where a: "Date_parse (t_startDate task) = Some a"
    "0 \<le> YearFromTime a" "YearFromTime a \<le> 9999" "a = Day a * msPerDay"
    by (auto elim: isDateKey_D)
  from ke obtain b where b: "Date_parse (t_endDate task) = Some b"
    "0 \<le> YearFromTime b" "YearFromTime b \<le> 9999" "b = Day b * msPerDay"
    by (auto elim: isDateKey_D)
  from kd obtain c where c: "Date_parse d = Some c" "formatDate c = d"
    "0 \<le> YearFromTime c" "YearFromTime c \<le> 9999" "c = Day c * msPerDay"
    by (auto elim: isDateKey_D)
  let ?e = "c + (b - a)"
  have dur: "b - a = (Day b - Day a) * msPerDay"
    using a(4) b(4) by (simp add: algebra_simps)
  have e: "?e = (Day c + (Day b - Day a)) * msPerDay"
    using c(5) dur by (simp add: algebra_simps)
  have de: "Day ?e = Day c + (Day b - Day a)"
    using msPerDay_pos by (subst e) (simp add: Day_def)
  have "- 4371953 \<le> Day ?e \<and> Day ?e \<le> 6585322"
    using key_day_bounds [OF a(2,3)] key_day_bounds [OF b(2,3)] key_day_bounds [OF c(3,4)]
    unfolding de by simp
  then have "- 999999 \<le> YearFromTime ?e \<and> YearFromTime ?e \<le> 999999"
    by (intro YearFromTime_printable) simp_all
  then have "Date_parse (formatDate ?e) = Some (Day ?e * msPerDay)"
    by (intro Date_parse_formatDate) simp_all
  then have rt: "Date_parse (formatDate ?e) = Some ?e" using e de by simp
  have le: "(t_startDate task \<le> t_endDate task) = (a \<le> b)"
    using ks ke a(1) b(1) by (rule key_le)
  show ?thesis
    using that [OF a(1) b(1) c(1) _ _ dur rt de c(2) c(3) c(4) le] a(1) b(1) c(1)
    by (simp add: taskDuration_def newEndDate_def)
qed






lemma moving_any_step:
  "Moving tid ps pe s \<Longrightarrow> \<exists>ps' pe'. Moving tid ps' pe' (onMouseMove d s)"
  by (auto simp add: onMouseMove_def handleTaskDrag_def Moving_def Let_def
      split: option.splits sum.splits)

lemma moving_any_dragOver:
  "Moving tid ps pe s \<Longrightarrow> \<exists>ps' pe'. Moving tid ps' pe' (dragOver ds s)"
proof (induction ds arbitrary: s ps pe)
  case Nil
  then show ?case by auto
next
  case (Cons d ds)
  from moving_any_step [OF Cons.prems, of d] obtain p q where
    "Moving tid p q (onMouseMove d s)" by blast
  from Cons.IH [OF this] show ?case by simp
qed







subsection \<open>Evaluations on the scenario\<close>

lemma key_0310: "isDateKey ''2024-03-10''" by code_simp
lemma key_0312: "isDateKey ''2024-03-12''" by code_simp
lemma key_0315: "isDateKey ''2024-03-15''" by code_simp
lemma parse_0315: "Date_parse ''2024-03-15'' = Some 1710460800000" by code_simp
lemma parse_0317: "Date_parse ''2024-03-17'' = Some 1710633600000" by code_simp
lemma duration_designReview: "taskDuration designReview = Some 172800000" by code_simp
lemma newEnd_0315: "newEndDate designReview ''2024-03-15'' = Some 1710633600000" by code_simp
lemma format_0317: "formatDate 1710633600000 = ''2024-03-17''" by code_simp
lemma lower1: "toLowerCase ''Design review'' = ''design review''" by code_simp
lemma newEnd_0313: "newEndDate designReview ''2024-03-13'' = Some 1710460800000" by code_simp
lemma format_0315: "formatDate 1710460800000 = ''2024-03-15''" by code_simp
lemma newEnd_kickoff: "newEndDate kickoff ''2024-03-15'' = Some 1710460800000" by code_simp
lemma duration_demo: "taskDuration demo = Some (9 * msPerDay)" by code_simp
lemma newEnd_draft: "newEndDate draft ''2024-03-15'' = None" by code_simp







lemma parse_same: "numSub (Date_parse ''2024-03-15'') (Date_parse ''2024-03-15'') = Some 0"
  by (simp add: parse_0315)

lemma id_1710028800000: "numToString 1710028800000 = ''1710028800000''"
  by (simp add: numToString_def digits.simps digitChar_def)

lemmas press_release_eval = createTask_def setModalName_def setModalStartDate_def
  setModalEndDate_def onMouseUp_def handleMouseUp_def handleTaskDragEnd_def handleMouseEnter_def
  handleMouseDown_def initialPlanner_def idleDrag_def idleCreate_def emptyModal_def trim_def
  isWhiteSpace_def id_1710028800000 Let_def

lemma sameClock_tasks: "tasks sameClock = [kickoff, demo]"
  by (simp add: sameClock_def kickoff_def demo_def press_release_eval)

lemma undated_tasks: "tasks undated = [draft]"
  by (simp add: undated_def draft_def press_release_eval)


lemma grid99:
  "formatDate (hd (getDaysInMonth (fixedOffset 0) (- 59014137600000))) = ''1999-11-28''"
  by code_simp

section \<open>Classifying a press on a task chip\<close>

text \<open>
  C9. A press on a task chip at horizontal offset \<open>clientX - left\<close> within a chip of width
  \<open>width\<close> starts a resize of the start edge if the offset is below 10, a resize of the end
  edge if the offset exceeds \<open>width - 10\<close>, and a move otherwise. The two zones are
  exclusive for every width: the start zone is tested first, so a press that lies in both
  zones of a chip narrower than 20 resizes the start edge. The provisional range is the
  task's current range.
\<close>

theorem C9_press_classification:
  "(let offset = clientX - left;
        ds = dragState (handleTaskMouseDown clientX left width tid task s)
    in (offset < 10 \<longrightarrow> isResizing ds \<and> \<not> isDragging ds \<and> resizeType ds = Some RStart) \<and>
       (\<not> offset < 10 \<and> offset > width - 10 \<longrightarrow>
          isResizing ds \<and> \<not> isDragging ds \<and> resizeType ds = Some REnd) \<and>
       (\<not> offset < 10 \<and> \<not> offset > width - 10 \<longrightarrow>
          isDragging ds \<and> \<not> isResizing ds \<and> resizeType ds = None) \<and>
       taskId ds = Some tid \<and>
       d_startDate ds = Some (t_startDate task) \<and> d_endDate ds = Some (t_endDate task))"
  by (simp add: handleTaskMouseDown_def Let_def)

text \<open>Presses at offsets 2, 75 and 40 on a chip 80 wide: start edge, end edge, move; and a
  press at offset 5 on a chip 12 wide, in both zones: start edge.\<close>

theorem C9_press_classification_witness:
  "(let ds = dragState (handleTaskMouseDown 2 0 80 ''7'' designReview initialPlanner)
    in isResizing ds \<and> \<not> isDragging ds \<and> resizeType ds = Some RStart \<and>
       d_startDate ds = Some ''2024-03-10'' \<and> d_endDate ds = Some ''2024-03-12'') \<and>
   (let ds = dragState (handleTaskMouseDown 75 0 80 ''7'' designReview initialPlanner)
    in isResizing ds \<and> \<not> isDragging ds \<and> resizeType ds = Some REnd) \<and>
   (let ds = dragState (handleTaskMouseDown 40 0 80 ''7'' designReview initialPlanner)
    in isDragging ds \<and> \<not> isResizing ds \<and> resizeType ds = None) \<and>
   (let ds = dragState (handleTaskMouseDown 5 0 12 ''7'' designReview initialPlanner)
    in isResizing ds \<and> \<not> isDragging ds \<and> resizeType ds = Some RStart)"
  using C9_press_classification [of 2 0 80 "''7''" designReview initialPlanner]
        C9_press_classification [of 75 0 80 "''7''" designReview initialPlanner]
        C9_press_classification [of 40 0 80 "''7''" designReview initialPlanner]
        C9_press_classification [of 5 0 12 "''7''" designReview initialPlanner]
  by (simp add: designReview_def Let_def)

section \<open>Leaving the grid during a create gesture\<close>

text \<open>
  C2 (amended). When the pointer leaves the grid while a create gesture is active (a
  selection with non-empty anchor \<open>a\<close> and current date \<open>c\<close>, no task gesture active), the
  handlers of a release run: the selection ends, no task is added, and the creation form
  is opened on the ordered range from \<open>min a c\<close> to \<open>max a c\<close> with an empty name. The
  result is that of a pointer release.
\<close>

theorem C2_leave_opens_form:
  assumes "isSelecting (createTaskState s)"
    and "c_startDate (createTaskState s) = Some a"
    and "c_currentDate (createTaskState s) = Some c"
    and "a \<noteq> []" and "c \<noteq> []"
    and "dragState s = idleDrag"
  shows "onMouseLeave s =
           s\<lparr>modalTask := \<lparr>m_name = [], m_category = ToDo,
                            m_startDate = min a c, m_endDate = max a c\<rparr>,
             showModal := True, createTaskState := idleCreate\<rparr> \<and>
         tasks (onMouseLeave s) = tasks s \<and>
         createTaskState (onMouseLeave s) = idleCreate \<and>
         showModal (onMouseLeave s) \<and>
         onMouseLeave s = onMouseUp s"
  using assms
  by (auto simp add: onMouseLeave_def onMouseUp_def handleMouseUp_def handleTaskDragEnd_def
        idleDrag_def Let_def min_def max_def)

text \<open>A selection dragged backwards from 2024-03-12 to 2024-03-10, then the pointer leaves.\<close>

theorem C2_leave_opens_form_witness:
  "(let s = handleMouseEnter ''2024-03-10'' (handleMouseDown True ''2024-03-12'' initialPlanner)
    in isSelecting (createTaskState s) \<and> dragState s = idleDrag \<and>
       tasks (onMouseLeave s) = [] \<and>
       showModal (onMouseLeave s) \<and>
       modalTask (onMouseLeave s) = \<lparr>m_name = [], m_category = ToDo,
          m_startDate = ''2024-03-10'', m_endDate = ''2024-03-12''\<rparr>)"
  using C2_leave_opens_form [of
      "handleMouseEnter ''2024-03-10'' (handleMouseDown True ''2024-03-12'' initialPlanner)"
      "''2024-03-12''" "''2024-03-10''"]
  by (simp add: handleMouseEnter_def handleMouseDown_def initialPlanner_def Let_def
        min_def max_def)

text \<open>
  C2 as stated fails: a selection from 2024-03-10 to 2024-03-12 is active and the form is
  closed; after the pointer leaves, the form is open and holds the selected range.
\<close>

theorem C2_leave_counterexample:
  "(let s = handleMouseEnter ''2024-03-12'' (handleMouseDown True ''2024-03-10'' initialPlanner)
    in isSelecting (createTaskState s) \<and> \<not> showModal s \<and>
       showModal (onMouseLeave s) \<and>
       m_startDate (modalTask (onMouseLeave s)) = ''2024-03-10'' \<and>
       m_endDate (modalTask (onMouseLeave s)) = ''2024-03-12'')"
  by (simp add: onMouseLeave_def handleMouseUp_def handleTaskDragEnd_def handleMouseEnter_def
       handleMouseDown_def initialPlanner_def idleDrag_def idleCreate_def Let_def)

section \<open>Creating a task\<close>

text \<open>
  C6 (amended). \<^verbatim>\<open>createTask\<close> rejects exactly when the trimmed name is empty, and then
  changes nothing (no task is added and the form stays as it is). Otherwise it appends one
  task after the existing ones, which keep their order, and closes the form; the task's id
  is the decimal string of the creation time \<open>now\<close>, which differs from every existing id
  when each existing id is the decimal string of another time.
\<close>

theorem C6_create:
  "(trim (m_name (modalTask s)) = [] \<longrightarrow> createTask now s = s) \<and>
   (trim (m_name (modalTask s)) \<noteq> [] \<longrightarrow>
      (\<exists>t. tasks (createTask now s) = tasks s @ [t] \<and> t_id t = numToString now \<and>
           t_name t = trim (m_name (modalTask s)) \<and>
           t_category t = m_category (modalTask s) \<and>
           t_startDate t = m_startDate (modalTask s) \<and> t_endDate t = m_endDate (modalTask s)) \<and>
      \<not> showModal (createTask now s) \<and>
      (list_all (\<lambda>t. \<exists>n. n \<noteq> now \<and> t_id t = numToString n) (tasks s) \<longrightarrow>
         numToString now \<notin> set (map t_id (tasks s))))"
  using fresh_id [of now "tasks s"] by (simp add: createTask_def Let_def)

text \<open>A first task created at time 1710028800000 and a second one a millisecond later; a
  blank name is rejected.\<close>

theorem C6_create_witness:
  "(let s = createTask 1710028800000 (setModalName ''Design review'' initialPlanner);
        s' = createTask 1710028800001 (setModalName '' Retro '' s)
    in map t_id (tasks s') = [''1710028800000'', ''1710028800001''] \<and>
       map t_name (tasks s') = [''Design review'', ''Retro''] \<and>
       createTask 1710028800002 (setModalName ''   '' s') = setModalName ''   '' s')"
proof -
  let ?s = "createTask 1710028800000 (setModalName ''Design review'' initialPlanner)"
  let ?s2 = "setModalName '' Retro '' ?s"
  let ?s' = "createTask 1710028800001 ?s2"
  let ?s3 = "setModalName ''   '' ?s'"
  have n1: "trim (m_name (modalTask ?s2)) \<noteq> []"
    by (simp add: setModalName_def trim_def isWhiteSpace_def)
  have n3: "trim (m_name (modalTask ?s3)) = []"
    by (simp add: setModalName_def trim_def isWhiteSpace_def)
  have t: "tasks ?s2 = [\<lparr>t_id = ''1710028800000'', t_name = ''Design review'',
        t_startDate = [], t_endDate = [], t_category = ToDo\<rparr>]"
    by (simp add: createTask_def setModalName_def initialPlanner_def emptyModal_def trim_def
        isWhiteSpace_def Let_def numToString_def digits.simps digitChar_def)
  have "list_all (\<lambda>t. \<exists>n. n \<noteq> (1710028800001::int) \<and> t_id t = numToString n) (tasks ?s2)"
    unfolding t by (simp add: exI [of _ 1710028800000] numToString_def digits.simps digitChar_def)
  with C6_create [of ?s2 1710028800001] n1
  have "numToString 1710028800001 \<notin> set (map t_id (tasks ?s2))" by blast
  moreover from C6_create [of ?s3 1710028800002] n3 have "createTask 1710028800002 ?s3 = ?s3"
    by blast
  moreover have "map t_id (tasks ?s') = [''1710028800000'', ''1710028800001'']"
    unfolding createTask_def [of 1710028800001] using n1 t
    by (simp add: Let_def numToString_def digits.simps digitChar_def)
  moreover have "map t_name (tasks ?s') = [''Design review'', ''Retro'']"
    unfolding createTask_def [of 1710028800001] using n1 t
    by (simp add: Let_def setModalName_def trim_def isWhiteSpace_def)
  ultimately show ?thesis by (simp add: Let_def)
qed

text \<open>
  C6 as stated fails: the id is the clock reading, not a checked fresh value. Two creations
  at the same reading of the clock give the second task the id of the first.
\<close>

theorem C6_same_millisecond_counterexample:
  "(let s = createTask 1710028800000 (setModalName ''a'' initialPlanner);
        s' = createTask 1710028800000 (setModalName ''b'' s)
    in length (tasks s') = 2 \<and> t_id (last (tasks s')) \<in> set (map t_id (tasks s)))"
  by (simp add: createTask_def setModalName_def initialPlanner_def emptyModal_def trim_def
        isWhiteSpace_def Let_def)

text \<open>
  C10. Every task stored by a successful creation has a trimmed name: the stored name is
  its own trim, is not empty, and neither begins nor ends with white space.
\<close>

theorem C10_stored_name_trimmed:
  "trim (m_name (modalTask s)) \<noteq> [] \<Longrightarrow>
   (let t = last (tasks (createTask now s))
    in trim (t_name t) = t_name t \<and> t_name t \<noteq> [] \<and>
       \<not> isWhiteSpace (hd (t_name t)) \<and> \<not> isWhiteSpace (last (t_name t)))"
  using trim_ends [of "m_name (modalTask s)"]
  by (simp add: createTask_def Let_def trim_idem)

text \<open>A name typed with blanks around it is stored without them.\<close>

theorem C10_stored_name_trimmed_witness:
  "trim (m_name (modalTask (setModalName ''  Design review  '' initialPlanner))) \<noteq> [] \<and>
   t_name (last (tasks (createTask 1710028800000
       (setModalName ''  Design review  '' initialPlanner)))) = ''Design review'' \<and>
   trim ''Design review'' = ''Design review''"
  using C10_stored_name_trimmed [of "setModalName ''  Design review  '' initialPlanner"
      1710028800000]
  by (simp add: createTask_def setModalName_def initialPlanner_def emptyModal_def trim_def
        isWhiteSpace_def Let_def)

section \<open>Task gestures\<close>

text \<open>
  C4 (amended). Let the pressed task be the one the store finds for its id \<open>tid\<close>, the
  first task of that id (every task where ids are unique). During a resize of the start
  edge (a press in the start zone of its chip, followed by any pointer moves \<open>ds\<close>), the
  provisional end stays the task's end date, and a pointer move to a date \<open>d\<close> beyond it
  leaves the state unchanged; symmetrically for a resize of the end edge and a date before
  the provisional start. The crossing move is a no-op, never a swap or a clamp: the
  provisional start is the task's own or a date not after the end, the provisional end the
  task's own or a date not before the start, so that a resize never produces
  \<open>startDate > endDate\<close>.
\<close>

theorem C4_resize_no_crossing:
  assumes "find (\<lambda>t. t_id t = tid) (tasks s) = Some task"
  shows "(let s' = dragOver ds (handleTaskMouseDown clientX left width tid task s)
          in (clientX - left < 10 \<longrightarrow>
                (\<exists>ps. Resizing RStart tid ps (t_endDate task) s' \<and>
                      (ps = t_startDate task \<or> ps \<le> t_endDate task)) \<and>
                (\<forall>d. d > t_endDate task \<longrightarrow>
                   handleTaskDrag (Some d) s' = Inr s' \<and> onMouseMove (Some d) s' = s')) \<and>
             (\<not> clientX - left < 10 \<and> clientX - left > width - 10 \<longrightarrow>
                (\<exists>pe. Resizing REnd tid (t_startDate task) pe s' \<and>
                      (pe = t_endDate task \<or> t_startDate task \<le> pe)) \<and>
                (\<forall>d. d < t_startDate task \<longrightarrow>
                   handleTaskDrag (Some d) s' = Inr s' \<and> onMouseMove (Some d) s' = s')))"
proof -
  let ?s0 = "handleTaskMouseDown clientX left width tid task s"
  let ?s' = "dragOver ds ?s0"
  have f0: "find (\<lambda>t. t_id t = tid) (tasks ?s0) = Some task"
    using assms(1) by (simp add: press_tasks)
  have f': "find (\<lambda>t. t_id t = tid) (tasks ?s') = Some task"
    using f0 by (simp add: dragOver_tasks)
  have a: "(\<exists>ps. Resizing RStart tid ps (t_endDate task) ?s' \<and>
                 (ps = t_startDate task \<or> ps \<le> t_endDate task)) \<and>
           (\<forall>d. d > t_endDate task \<longrightarrow>
              handleTaskDrag (Some d) ?s' = Inr ?s' \<and> onMouseMove (Some d) ?s' = ?s')"
    if h: "clientX - left < 10"
  proof -
    from resizeStart_dragOver [OF f0 refl press_start [OF h], where ds = ds]
    obtain ps where r: "Resizing RStart tid ps (t_endDate task) ?s'"
      and le: "ps = t_startDate task \<or> ps \<le> t_endDate task"
      by blast
    have "handleTaskDrag (Some d) ?s' = Inr ?s'" if "d > t_endDate task" for d
      using that unfolding resizeStart_move [OF r f' refl] by auto
    then show ?thesis using r le by (auto simp add: onMouseMove_def)
  qed
  have b: "(\<exists>pe. Resizing REnd tid (t_startDate task) pe ?s' \<and>
                 (pe = t_endDate task \<or> t_startDate task \<le> pe)) \<and>
           (\<forall>d. d < t_startDate task \<longrightarrow>
              handleTaskDrag (Some d) ?s' = Inr ?s' \<and> onMouseMove (Some d) ?s' = ?s')"
    if h1: "\<not> clientX - left < 10" and h2: "clientX - left > width - 10"
  proof -
    from resizeEnd_dragOver [OF f0 refl press_end [OF h1 h2], where ds = ds]
    obtain pe where r: "Resizing REnd tid (t_startDate task) pe ?s'"
      and le: "pe = t_endDate task \<or> t_startDate task \<le> pe"
      by blast
    have "handleTaskDrag (Some d) ?s' = Inr ?s'" if "d < t_startDate task" for d
      using that unfolding resizeEnd_move [OF r f' refl] by auto
    then show ?thesis using r le by (auto simp add: onMouseMove_def)
  qed
  from a b show ?thesis unfolding Let_def by blast
qed

text \<open>The scenario's task, pressed at offset 2 and dragged to 2024-03-09, refuses 2024-03-13;
  pressed at offset 78 of 80 and dragged to 2024-03-14, it refuses 2024-03-09.\<close>

theorem C4_resize_no_crossing_witness:
  "find (\<lambda>t. t_id t = ''1710028800000'') (tasks scenario) = Some designReview \<and>
   (let s' = dragOver [Some ''2024-03-09'']
               (handleTaskMouseDown 2 0 80 ''1710028800000'' designReview scenario)
    in Resizing RStart ''1710028800000'' ''2024-03-09'' ''2024-03-12'' s' \<and>
       ''2024-03-13'' > t_endDate designReview \<and>
       onMouseMove (Some ''2024-03-13'') s' = s') \<and>
   (let s' = dragOver [Some ''2024-03-14'']
               (handleTaskMouseDown 78 0 80 ''1710028800000'' designReview scenario)
    in Resizing REnd ''1710028800000'' ''2024-03-10'' ''2024-03-14'' s' \<and>
       ''2024-03-09'' < t_startDate designReview \<and>
       onMouseMove (Some ''2024-03-09'') s' = s')"
proof -
  have f: "find (\<lambda>t. t_id t = ''1710028800000'') (tasks scenario) = Some designReview"
    by (simp add: scenario_def designReview_def)
  have c1: "''2024-03-13'' > t_endDate designReview" by (simp add: designReview_def)
  have c2: "''2024-03-09'' < t_startDate designReview" by (simp add: designReview_def)
  have r1: "Resizing RStart ''1710028800000'' ''2024-03-09'' ''2024-03-12''
      (dragOver [Some ''2024-03-09'']
         (handleTaskMouseDown 2 0 80 ''1710028800000'' designReview scenario))"
    by (simp add: onMouseMove_def handleTaskDrag_def handleTaskMouseDown_def scenario_def
          designReview_def Resizing_def Let_def)
  have r2: "Resizing REnd ''1710028800000'' ''2024-03-10'' ''2024-03-14''
      (dragOver [Some ''2024-03-14'']
         (handleTaskMouseDown 78 0 80 ''1710028800000'' designReview scenario))"
    by (simp add: onMouseMove_def handleTaskDrag_def handleTaskMouseDown_def scenario_def
          designReview_def Resizing_def Let_def)
  from C4_resize_no_crossing [OF f, of "[Some ''2024-03-09'']" 2 0 80] c1
  have m1: "onMouseMove (Some ''2024-03-13'')
      (dragOver [Some ''2024-03-09'']
         (handleTaskMouseDown 2 0 80 ''1710028800000'' designReview scenario)) =
      dragOver [Some ''2024-03-09'']
         (handleTaskMouseDown 2 0 80 ''1710028800000'' designReview scenario)"
    unfolding Let_def by simp
  from C4_resize_no_crossing [OF f, of "[Some ''2024-03-14'']" 78 0 80] c2
  have m2: "onMouseMove (Some ''2024-03-09'')
      (dragOver [Some ''2024-03-14'']
         (handleTaskMouseDown 78 0 80 ''1710028800000'' designReview scenario)) =
      dragOver [Some ''2024-03-14'']
         (handleTaskMouseDown 78 0 80 ''1710028800000'' designReview scenario)"
    unfolding Let_def by simp
  from f c1 c2 r1 r2 m1 m2 show ?thesis unfolding Let_def by blast
qed

text \<open>
  C4 as stated fails where two tasks share an id: the handler compares the target with the
  edge of the first task of that id, not with the provisional edge. A resize of the end edge
  of the second task, of 2024-03-11 to 2024-03-20, accepts a move to 2024-03-10, the start
  of the first, and the provisional range becomes 2024-03-11 to 2024-03-10.
\<close>

theorem C4_duplicate_id_counterexample:
  "(let s = handleTaskMouseDown 78 0 80 (t_id demo) demo sameClock;
        s' = onMouseMove (Some ''2024-03-10'') s
    in tasks sameClock = [kickoff, demo] \<and>
       Resizing REnd (t_id demo) ''2024-03-11'' ''2024-03-20'' s \<and>
       ''2024-03-10'' < ''2024-03-11'' \<and>
       s' \<noteq> s \<and>
       Resizing REnd (t_id demo) ''2024-03-11'' ''2024-03-10'' s')"
proof -
  let ?s = "handleTaskMouseDown 78 0 80 (t_id demo) demo sameClock"
  let ?s' = "onMouseMove (Some ''2024-03-10'') ?s"
  have r: "Resizing REnd (t_id demo) ''2024-03-11'' ''2024-03-20'' ?s"
    by (simp add: handleTaskMouseDown_def Resizing_def demo_def)
  have r': "Resizing REnd (t_id demo) ''2024-03-11'' ''2024-03-10'' ?s'"
    by (simp add: onMouseMove_def handleTaskDrag_def handleTaskMouseDown_def Resizing_def
          sameClock_tasks Let_def kickoff_def demo_def)
  from r r' have "?s' \<noteq> ?s" by (auto simp add: Resizing_def)
  with r r' show ?thesis by (simp add: Let_def sameClock_tasks)
qed

text \<open>
  C5 (amended). Committing a task gesture whose provisional range equals the range of every
  task of the store that carries the gesture's id (of the task itself where ids are unique)
  leaves the list of tasks as it was, on release and on leaving the grid alike.
\<close>

theorem C5_commit_idempotent:
  assumes "list_all (\<lambda>t. if Some (t_id t) = taskId (dragState s)
                         then d_startDate (dragState s) = Some (t_startDate t) \<and>
                              d_endDate (dragState s) = Some (t_endDate t)
                         else True) (tasks s)"
  shows "tasks (handleTaskDragEnd s) = tasks s \<and> tasks (onMouseUp s) = tasks s \<and>
         tasks (onMouseLeave s) = tasks s"
proof -
  have 1: "tasks (handleTaskDragEnd s') = tasks s'"
    if "dragState s' = dragState s" "tasks s' = tasks s" for s'
  proof (cases "taskId (dragState s)")
    case None
    then show ?thesis using that by (simp add: handleTaskDragEnd_def Let_def)
  next
    case (Some tid)
    have "(if t_id t = tid
           then t\<lparr>t_startDate := orElse (d_startDate (dragState s)) (t_startDate t),
                  t_endDate := orElse (d_endDate (dragState s)) (t_endDate t)\<rparr>
           else t) = t" if "t \<in> set (tasks s)" for t
      using assms that Some by (auto simp add: list_all_iff)
    then have "map (\<lambda>t. if t_id t = tid
           then t\<lparr>t_startDate := orElse (d_startDate (dragState s)) (t_startDate t),
                  t_endDate := orElse (d_endDate (dragState s)) (t_endDate t)\<rparr>
           else t) (tasks s) = tasks s"
      by (rule map_id_on)
    then show ?thesis using Some that by (simp add: handleTaskDragEnd_def Let_def)
  qed
  have 2: "dragState (handleMouseUp s) = dragState s \<and> tasks (handleMouseUp s) = tasks s"
    by (simp add: handleMouseUp_def Let_def split: option.splits)
  from 1 [of s] 1 [of "handleMouseUp s"] 2 show ?thesis
    by (simp add: onMouseUp_def onMouseLeave_def)
qed

text \<open>A press on the scenario's task released without a move: the store is unchanged.\<close>

theorem C5_commit_idempotent_witness:
  "(let s = handleTaskMouseDown 40 0 80 ''1710028800000'' designReview scenario
    in taskId (dragState s) = Some ''1710028800000'' \<and>
       d_startDate (dragState s) = Some ''2024-03-10'' \<and>
       d_endDate (dragState s) = Some ''2024-03-12'' \<and>
       tasks (onMouseUp s) = tasks scenario \<and> tasks (onMouseUp s) = [designReview])"
proof -
  let ?s = "handleTaskMouseDown 40 0 80 ''1710028800000'' designReview scenario"
  have d: "dragState ?s = \<lparr>isDragging = True, isResizing = False, resizeType = None,
      taskId = Some ''1710028800000'', d_startDate = Some ''2024-03-10'',
      d_endDate = Some ''2024-03-12''\<rparr>"
    by (simp add: handleTaskMouseDown_def designReview_def)
  have t: "tasks ?s = [designReview]"
    by (simp add: handleTaskMouseDown_def scenario_def designReview_def)
  have "list_all (\<lambda>t. if Some (t_id t) = taskId (dragState ?s)
                       then d_startDate (dragState ?s) = Some (t_startDate t) \<and>
                            d_endDate (dragState ?s) = Some (t_endDate t)
                       else True) (tasks ?s)"
    unfolding d t by (simp add: designReview_def)
  from C5_commit_idempotent [OF this] have "tasks (onMouseUp ?s) = tasks ?s" by blast
  with d t show ?thesis by (simp add: Let_def scenario_def designReview_def)
qed

text \<open>
  C5 as stated fails where two tasks share an id: the commit rewrites every task of that
  id. A press on the second task released without a move, the provisional range being that
  task's own, gives the first task the range of the second.
\<close>

theorem C5_duplicate_id_counterexample:
  "(let s = handleTaskMouseDown 40 0 80 (t_id demo) demo sameClock
    in tasks s = [kickoff, demo] \<and>
       Moving (t_id demo) (t_startDate demo) (t_endDate demo) s \<and>
       tasks (onMouseUp s) =
         [kickoff\<lparr>t_startDate := ''2024-03-11'', t_endDate := ''2024-03-20''\<rparr>, demo] \<and>
       tasks (onMouseUp s) \<noteq> tasks s)"
proof -
  let ?s = "handleTaskMouseDown 40 0 80 (t_id demo) demo sameClock"
  have t: "tasks ?s = [kickoff, demo]" by (simp add: press_tasks sameClock_tasks)
  have m: "Moving (t_id demo) (t_startDate demo) (t_endDate demo) ?s"
    by (simp add: handleTaskMouseDown_def Moving_def)
  have u: "tasks (onMouseUp ?s) =
         [kickoff\<lparr>t_startDate := ''2024-03-11'', t_endDate := ''2024-03-20''\<rparr>, demo]"
    by (simp add: onMouseUp_def handleMouseUp_def handleTaskDragEnd_def handleTaskMouseDown_def
          sameClock_tasks Let_def kickoff_def demo_def idleCreate_def
          split: option.splits)
  have "tasks (onMouseUp ?s) \<noteq> tasks ?s" unfolding u t by (simp add: kickoff_def)
  with t m u show ?thesis by (simp add: Let_def)
qed

text \<open>
  C3 (amended). Let the pressed task be the one the store finds for its id, the first task
  of that id (every task where ids are unique), with a non-empty id and with date keys for
  its start and end date. During a move of it (a press in the middle of its chip, followed
  by any pointer moves \<open>ds\<close>), a pointer move to a date key \<open>d\<close> sets the provisional start
  to \<open>d\<close> and the provisional end to a key \<open>e\<close> with \<open>e - d\<close> equal to the task's
  \<open>endDate - startDate\<close>, a whole number \<open>n\<close> of days: the duration is preserved exactly.
\<close>

theorem C3_move_keeps_duration:
  assumes "find (\<lambda>t. t_id t = t_id task) (tasks s) = Some task"
    and "t_id task \<noteq> []"
    and "isDateKey (t_startDate task)" and "isDateKey (t_endDate task)"
    and "isDateKey d"
    and "\<not> clientX - left < 10" and "\<not> clientX - left > width - 10"
  shows "(let s' = dragOver ds (handleTaskMouseDown clientX left width (t_id task) task s)
          in \<exists>e n. handleTaskDrag (Some d) s' =
                      Inr (s'\<lparr>dragState := (dragState s')\<lparr>d_startDate := Some d,
                                                         d_endDate := Some e\<rparr>\<rparr>) \<and>
                    Moving (t_id task) d e (onMouseMove (Some d) s') \<and>
                    taskDuration task = Some (n * msPerDay) \<and>
                    numSub (Date_parse e) (Date_parse d) = Some (n * msPerDay))"
proof -
  let ?s0 = "handleTaskMouseDown clientX left width (t_id task) task s"
  let ?s' = "dragOver ds ?s0"
  from moving_any_dragOver [OF press_move [OF assms(6,7), of "t_id task" task s], where ds = ds]
  obtain ps pe where mv: "Moving (t_id task) ps pe ?s'" by blast
  have f: "find (\<lambda>t. t_id t = t_id task) (tasks ?s') = Some task"
    using assms(1) by (simp add: dragOver_tasks press_tasks)
  from move_end [OF assms(3-5)] obtain a b c where
    p: "Date_parse d = Some c" and td: "taskDuration task = Some (b - a)"
    and ne: "newEndDate task d = Some (c + (b - a))"
    and dur: "b - a = (Day b - Day a) * msPerDay"
    and rt: "Date_parse (formatDate (c + (b - a))) = Some (c + (b - a))"
    by metis
  have h: "handleTaskDrag (Some d) ?s' =
        Inr (?s'\<lparr>dragState := (dragState ?s')\<lparr>d_startDate := Some d,
              d_endDate := Some (formatDate (c + (b - a)))\<rparr>\<rparr>)"
    using moving_move [OF mv f assms(2) isDateKey_nonempty [OF assms(5)]] ne by simp
  have m: "Moving (t_id task) d (formatDate (c + (b - a))) (onMouseMove (Some d) ?s')"
    using mv by (simp add: onMouseMove_def h Moving_def)
  have "numSub (Date_parse (formatDate (c + (b - a)))) (Date_parse d) =
          Some ((Day b - Day a) * msPerDay)"
    using rt p dur by simp
  with h m td dur show ?thesis unfolding Let_def by metis
qed

text \<open>The scenario's task, two days long, pressed in the middle of its chip and moved to
  2024-03-13 and then to 2024-03-15: the provisional end is 2024-03-17.\<close>

theorem C3_move_keeps_duration_witness:
  "find (\<lambda>t. t_id t = t_id designReview) (tasks scenario) = Some designReview \<and>
   t_id designReview \<noteq> [] \<and>
   isDateKey (t_startDate designReview) \<and> isDateKey (t_endDate designReview) \<and>
   isDateKey ''2024-03-15'' \<and> \<not> (40::real) - 0 < 10 \<and> \<not> (40::real) - 0 > 80 - 10 \<and>
   (let s' = dragOver [Some ''2024-03-13'']
               (handleTaskMouseDown 40 0 80 (t_id designReview) designReview scenario)
    in Moving (t_id designReview) ''2024-03-13'' ''2024-03-15'' s' \<and>
       (\<exists>e n. handleTaskDrag (Some ''2024-03-15'') s' =
                 Inr (s'\<lparr>dragState := (dragState s')\<lparr>d_startDate := Some ''2024-03-15'',
                        d_endDate := Some e\<rparr>\<rparr>) \<and>
               Moving (t_id designReview) ''2024-03-15'' e (onMouseMove (Some ''2024-03-15'') s') \<and>
               taskDuration designReview = Some (n * msPerDay) \<and>
               numSub (Date_parse e) (Date_parse ''2024-03-15'') = Some (n * msPerDay)) \<and>
       Moving (t_id designReview) ''2024-03-15'' ''2024-03-17''
         (onMouseMove (Some ''2024-03-15'') s') \<and>
       taskDuration designReview = Some 172800000 \<and>
       numSub (Date_parse ''2024-03-17'') (Date_parse ''2024-03-15'') = Some 172800000)"
proof -
  let ?s0 = "handleTaskMouseDown 40 0 80 (t_id designReview) designReview scenario"
  let ?s' = "dragOver [Some ''2024-03-13''] ?s0"
  have f: "find (\<lambda>t. t_id t = t_id designReview) (tasks scenario) = Some designReview"
    by (simp add: scenario_def)
  have ne: "t_id designReview \<noteq> []" by (simp add: designReview_def)
  have ks: "isDateKey (t_startDate designReview)" using key_0310 by (simp add: designReview_def)
  have ke: "isDateKey (t_endDate designReview)" using key_0312 by (simp add: designReview_def)
  have z1: "\<not> (40::real) - 0 < 10" and z2: "\<not> (40::real) - 0 > 80 - 10" by simp_all
  note inst = C3_move_keeps_duration [OF f ne ks ke key_0315 z1 z2,
      where ds = "[Some ''2024-03-13'']", unfolded Let_def]
  have m0: "Moving (t_id designReview) ''2024-03-10'' ''2024-03-12'' ?s0"
    using press_move [OF z1 z2, of "t_id designReview" designReview scenario]
    by (simp add: designReview_def)
  have f0: "find (\<lambda>t. t_id t = t_id designReview) (tasks ?s0) = Some designReview"
    using f by (simp add: press_tasks)
  have h1: "handleTaskDrag (Some ''2024-03-13'') ?s0 =
        Inr (?s0\<lparr>dragState := (dragState ?s0)\<lparr>d_startDate := Some ''2024-03-13'',
              d_endDate := Some ''2024-03-15''\<rparr>\<rparr>)"
    using moving_move [OF m0 f0 ne, of "''2024-03-13''"] newEnd_0313 format_0315 by simp
  define s1 where "s1 = onMouseMove (Some ''2024-03-13'') ?s0"
  have s1: "?s' = s1" by (simp add: s1_def)
  have m1: "Moving (t_id designReview) ''2024-03-13'' ''2024-03-15'' s1"
    using m0 by (simp add: s1_def onMouseMove_def h1 Moving_def)
  have f1: "find (\<lambda>t. t_id t = t_id designReview) (tasks s1) = Some designReview"
    using f by (simp add: s1_def onMouseMove_tasks press_tasks)
  have h2: "handleTaskDrag (Some ''2024-03-15'') s1 =
        Inr (s1\<lparr>dragState := (dragState s1)\<lparr>d_startDate := Some ''2024-03-15'',
              d_endDate := Some ''2024-03-17''\<rparr>\<rparr>)"
    using moving_move [OF m1 f1 ne, of "''2024-03-15''"] newEnd_0315 format_0317 by simp
  have m2: "Moving (t_id designReview) ''2024-03-15'' ''2024-03-17''
      (onMouseMove (Some ''2024-03-15'') s1)"
    using m1 by (simp add: onMouseMove_def h2 Moving_def)
  have p: "numSub (Date_parse ''2024-03-17'') (Date_parse ''2024-03-15'') = Some 172800000"
    by (simp add: parse_0315 parse_0317)
  show ?thesis
    unfolding Let_def
    using f ne ks ke key_0315 z1 z2 m1 inst m2 duration_designReview p unfolding s1
    by blast
qed

text \<open>
  C3 as stated fails in two ways. Where two tasks share an id, the duration added is that
  of the first task of that id: the second task, nine days long, moved to 2024-03-15 gets
  the provisional range 2024-03-15 to 2024-03-15. And a task whose start date was cleared
  in the creation form satisfies \<open>startDate \<le> endDate\<close>, the empty string being the least,
  but its move throws a \<^verbatim>\<open>RangeError\<close> and leaves the provisional range as it was.
\<close>

theorem C3_move_counterexample:
  "(let s = handleTaskMouseDown 40 0 80 (t_id demo) demo sameClock;
        s' = onMouseMove (Some ''2024-03-15'') s
    in tasks sameClock = [kickoff, demo] \<and> t_startDate demo \<le> t_endDate demo \<and>
       Moving (t_id demo) ''2024-03-11'' ''2024-03-20'' s \<and>
       taskDuration demo = Some (9 * msPerDay) \<and>
       Moving (t_id demo) ''2024-03-15'' ''2024-03-15'' s' \<and>
       numSub (Date_parse ''2024-03-15'') (Date_parse ''2024-03-15'') = Some 0) \<and>
   (let s = handleTaskMouseDown 40 0 80 (t_id draft) draft undated;
        s' = onMouseMove (Some ''2024-03-15'') s
    in tasks undated = [draft] \<and> t_startDate draft \<le> t_endDate draft \<and>
       Moving (t_id draft) '''' ''2024-03-10'' s \<and>
       handleTaskDrag (Some ''2024-03-15'') s = Inl RangeError \<and>
       s' = s \<and> d_startDate (dragState s') \<noteq> Some ''2024-03-15'')"
proof -
  let ?s = "handleTaskMouseDown 40 0 80 (t_id demo) demo sameClock"
  let ?s' = "onMouseMove (Some ''2024-03-15'') ?s"
  let ?u = "handleTaskMouseDown 40 0 80 (t_id draft) draft undated"
  let ?u' = "onMouseMove (Some ''2024-03-15'') ?u"
  have o: "t_startDate demo \<le> t_endDate demo" by (simp add: demo_def)
  have m: "Moving (t_id demo) ''2024-03-11'' ''2024-03-20'' ?s"
    by (simp add: handleTaskMouseDown_def Moving_def demo_def)
  have f: "find (\<lambda>t. t_id t = t_id demo) (tasks ?s) = Some kickoff"
    by (simp add: press_tasks sameClock_tasks kickoff_def demo_def)
  have ne: "t_id demo \<noteq> []" by (simp add: demo_def)
  have h: "handleTaskDrag (Some ''2024-03-15'') ?s =
        Inr (?s\<lparr>dragState := (dragState ?s)\<lparr>d_startDate := Some ''2024-03-15'',
              d_endDate := Some ''2024-03-15''\<rparr>\<rparr>)"
    using moving_move [OF m f ne, of "''2024-03-15''"] newEnd_kickoff format_0315 by simp
  have m': "Moving (t_id demo) ''2024-03-15'' ''2024-03-15'' ?s'"
    using m by (simp add: onMouseMove_def h Moving_def)
  have o2: "t_startDate draft \<le> t_endDate draft" by (simp add: draft_def)
  have m2: "Moving (t_id draft) '''' ''2024-03-10'' ?u"
    by (simp add: handleTaskMouseDown_def Moving_def draft_def)
  have f2: "find (\<lambda>t. t_id t = t_id draft) (tasks ?u) = Some draft"
    by (simp add: press_tasks undated_tasks)
  have ne2: "t_id draft \<noteq> []" by (simp add: draft_def)
  have h2: "handleTaskDrag (Some ''2024-03-15'') ?u = Inl RangeError"
    using moving_move [OF m2 f2 ne2, of "''2024-03-15''"] newEnd_draft by simp
  then have e2: "?u' = ?u" by (simp add: onMouseMove_def)
  have d2: "d_startDate (dragState ?u') \<noteq> Some ''2024-03-15''"
    unfolding e2 using m2 by (simp add: Moving_def)
  show ?thesis
    unfolding Let_def
    using sameClock_tasks o m duration_demo m' parse_same undated_tasks o2 m2 h2 e2 d2
    by blast
qed

section \<open>The range invariant\<close>




section \<open>The visible tasks\<close>

text \<open>The visible tasks are the tasks of the store whose category is among the enabled
  ones, whose lower-cased name contains the lower-cased search text and, when the time window
  is not \<^verbatim>\<open>all\<close>, whose range intersects the range from today's key to the key of
  \<^verbatim>\<open>addDays(today, 7 * w)\<close>; they keep the store's order, and no category enabled leaves no
  task visible. Where the offset by which the window's end is read back is the one in force
  today, as in every zone of constant offset, that end is the key of the day \<open>7 * w\<close> days
  after today.\<close>

lemma visible_tasks:
  "filteredTasks tz today ts categoryFilters searchTerm timeFilter =
     filter (\<lambda>task. t_category task \<in> set categoryFilters \<and>
                   sublist (toLowerCase searchTerm) (toLowerCase (t_name task)) \<and>
                   (if timeFilter = TF_all then True
                    else rangesIntersect (t_startDate task) (t_endDate task)
                           (formatDate today)
                           (formatDate (addDays tz today (parseInt timeFilter * 7))))) ts \<and>
   subseq (filteredTasks tz today ts categoryFilters searchTerm timeFilter) ts \<and>
   filteredTasks tz today ts [] searchTerm timeFilter = []"
proof -
  have 1: "filteredTasks tz today ts cf searchTerm timeFilter =
     filter (\<lambda>task. t_category task \<in> set cf \<and>
                   sublist (toLowerCase searchTerm) (toLowerCase (t_name task)) \<and>
                   (if timeFilter = TF_all then True
                    else rangesIntersect (t_startDate task) (t_endDate task)
                           (formatDate today)
                           (formatDate (addDays tz today (parseInt timeFilter * 7))))) ts" for cf
    by (auto simp add: filteredTasks_def Let_def includesStr_sublist
          rangesIntersect_def intro!: filter_cong)
  show ?thesis
    unfolding 1 by simp
qed

lemma window_end_same_offset:
  assumes "localOffset tz (LocalTime tz today + w * 7 * msPerDay) = utcOffset tz today"
  shows "addDays tz today (w * 7) = today + w * 7 * msPerDay \<and>
         Day (addDays tz today (w * 7)) = Day today + w * 7"
  using addDays_same_offset [of tz today "w * 7"] assms Day_shift [of today "w * 7"]
  by simp

lemma window_end_fixed:
  "addDays (fixedOffset c) today (w * 7) = today + w * 7 * msPerDay \<and>
   Day (addDays (fixedOffset c) today (w * 7)) = Day today + w * 7"
  by (rule window_end_same_offset) (simp add: fixedOffset_def)

text \<open>
  C7 fails where daylight saving begins inside the window. In the zone Europe/London at
  2024-03-30T00:30Z, with a window of one week, today is 2024-03-30 in local time and in
  UTC, and the day seven days later is 2024-04-06. \<^verbatim>\<open>addDays\<close> sets the local day of the
  month to 37, which is 6 April at 00:30 local time, by then one hour ahead of UTC: the
  instant 2024-04-05T23:30Z. \<^verbatim>\<open>formatDate\<close> prints its UTC date, so the window ends at the
  key 2024-04-05, and a task of 2024-04-06, whose range intersects the range from today to
  today + 7 days, is not visible.
\<close>

theorem C7_window_across_daylight_saving:
  "formatDate 1711758600000 = ''2024-03-30'' \<and>
   getDate europeLondon 1711758600000 = 30 \<and>
   formatDate (1711758600000 + 7 * parseInt TF_1 * msPerDay) = ''2024-04-06'' \<and>
   addDays europeLondon 1711758600000 (parseInt TF_1 * 7) = 1712359800000 \<and>
   getMonth europeLondon 1712359800000 = 3 \<and> getDate europeLondon 1712359800000 = 6 \<and>
   formatDate 1712359800000 = ''2024-04-05'' \<and>
   rangesIntersect (t_startDate launch) (t_endDate launch) ''2024-03-30'' ''2024-04-06'' \<and>
   t_category launch \<in> set [ToDo] \<and>
   includesStr (toLowerCase (t_name launch)) (toLowerCase '''') \<and>
   filteredTasks europeLondon 1711758600000 [launch] [ToDo] '''' TF_1 = []"
  by code_simp

text \<open>The scenario: the search text \<^verbatim>\<open>Review\<close> finds the task under its category only, and
  within a window that reaches its range.\<close>

theorem visible_tasks_scenario:
  "filteredTasks (fixedOffset 0) 1710028800000 (tasks scenario) [ToDo] ''Review'' TF_all = [designReview] \<and>
   filteredTasks (fixedOffset 0) 1710028800000 (tasks scenario) [Completed] ''Review'' TF_all = [] \<and>
   filteredTasks (fixedOffset 0) 1710028800000 (tasks scenario) [ToDo] ''Review'' TF_1 = [designReview] \<and>
   filteredTasks (fixedOffset 0) 1710374400000 (tasks scenario) [ToDo] ''Review'' TF_3 = []"
  by code_simp

section \<open>The month grid\<close>

text \<open>The two months the claim names, in UTC: the grid of February 2024, a leap year, runs
  from 2024-01-28 to 2024-03-09, and that of December 2024 from 2024-12-01 to 2025-01-11.\<close>

lemma grid_february_2024:
  "formatDate 1707955200000 = ''2024-02-15'' \<and>
   formatDate (hd (getDaysInMonth (fixedOffset 0) 1707955200000)) = ''2024-01-28'' \<and>
   formatDate (last (getDaysInMonth (fixedOffset 0) 1707955200000)) = ''2024-03-09''"
  by (simp add: hd_grid last_grid calendar_eval)

lemma grid_december_2024:
  "formatDate 1734220800000 = ''2024-12-15'' \<and>
   formatDate (hd (getDaysInMonth (fixedOffset 0) 1734220800000)) = ''2024-12-01'' \<and>
   formatDate (last (getDaysInMonth (fixedOffset 0) 1734220800000)) = ''2025-01-11''"
  by (simp add: hd_grid last_grid calendar_eval)

text \<open>
  C8 holds for every anchor date of a year outside 0 to 99 (\<open>grid_shape\<close> and
  \<open>firstDay_is_first\<close> above, for every zone of constant offset). For an anchor of the years
  0 to 99 it fails, since \<^verbatim>\<open>new Date(year, month, 1)\<close> reads such a year as 1900 + year: from
  January 0100 the Previous button leads to December 0099, whose grid is that of December
  1999, from 1999-11-28 to 2000-01-08, not the six weeks from 0099-11-29.
\<close>

theorem C8_grid_of_year_99:
  "formatDate (- 59010249600000) = ''0100-01-15'' \<and>
   previousMonth (fixedOffset 0) (- 59010249600000) = - 59014137600000 \<and>
   formatDate (- 59014137600000) = ''0099-12-01'' \<and>
   getFullYear (fixedOffset 0) (- 59014137600000) = 99 \<and> getMonth (fixedOffset 0) (- 59014137600000) = 11 \<and>
   formatDate (hd (getDaysInMonth (fixedOffset 0) (- 59014137600000))) = ''1999-11-28'' \<and>
   formatDate (last (getDaysInMonth (fixedOffset 0) (- 59014137600000))) = ''2000-01-08''"
  by (simp add: hd_grid last_grid previousMonth_def calendar_eval)

end
